theory Spec2Isabelle
  imports
    Main
    "HOL-Library.AList"
    "HOL-Library.Char_ord"
    "HOL-Library.List_Lexorder"
    "HOL-Library.Multiset"
begin

section \<open>Peer discovery for the DCL network: the crawler and its stores\<close>

text \<open>
  The repository holds two programs that share most of their code: the command-line
  crawler \<^verbatim>\<open>discover_peers.py\<close> and the web server \<^verbatim>\<open>peer_network.py\<close>.
  Functions of \<^verbatim>\<open>discover_peers.py\<close> keep their names; where \<^verbatim>\<open>peer_network.py\<close>
  has a function of the same name with a different body it carries the prefix \<open>pn_\<close>.
  The helpers \<^verbatim>\<open>is_private_ip\<close>, \<^verbatim>\<open>get_node_type\<close> and \<^verbatim>\<open>get_org\<close> are the same in
  both files and are embedded once.

  Python strings are \<open>string\<close> (the UTF-8 bytes); the order on them is the lexicographic
  order on character codes, which is the order of Python's \<^verbatim>\<open>sorted\<close> on \<^verbatim>\<open>str\<close>.
  A value that may be \<^verbatim>\<open>None\<close> or missing from a JSON object is an \<open>option\<close>.
\<close>

subsection \<open>String helpers: \<^verbatim>\<open>str.startswith\<close>, \<^verbatim>\<open>str.endswith\<close>, \<^verbatim>\<open>in\<close>, \<^verbatim>\<open>str.lower\<close>, \<^verbatim>\<open>str.split\<close>\<close>

fun startswith :: "string \<Rightarrow> string \<Rightarrow> bool" where
  "startswith s [] = True"
| "startswith [] (p # ps) = False"
| "startswith (c # cs) (p # ps) = (c = p \<and> startswith cs ps)"

definition endswith :: "string \<Rightarrow> string \<Rightarrow> bool" where
  "endswith s p = startswith (rev s) (rev p)"

text \<open>\<^verbatim>\<open>p in s\<close> on strings: \<open>p\<close> occurs in \<open>s\<close> as a contiguous substring.\<close>

fun contains :: "string \<Rightarrow> string \<Rightarrow> bool" where
  "contains [] p = (p = [])"
| "contains (c # cs) p = (startswith (c # cs) p \<or> contains cs p)"

text \<open>
  \<^verbatim>\<open>str.lower\<close> on the ASCII letters. Bytes outside \<open>A\<close>..\<open>Z\<close> are kept; the patterns
  that \<^verbatim>\<open>get_node_type\<close> looks for hold no letter that a non-ASCII character lowers to.
\<close>

definition lower_char :: "char \<Rightarrow> char" where
  "lower_char c =
     (case map_of (zip ''ABCDEFGHIJKLMNOPQRSTUVWXYZ'' ''abcdefghijklmnopqrstuvwxyz'') c of
        Some d \<Rightarrow> d
      | None \<Rightarrow> c)"

definition lower :: "string \<Rightarrow> string" where
  "lower s = map lower_char s"

text \<open>\<^verbatim>\<open>s.split(sep)[0]\<close> for a one-character separator: the text before the first \<open>sep\<close>.\<close>

definition split_first :: "char \<Rightarrow> string \<Rightarrow> string" where
  "split_first sep s = takeWhile (\<lambda>c. c \<noteq> sep) s"

text \<open>
  Truthiness of an optional string, as in \<^verbatim>\<open>if not peer_id\<close> and \<^verbatim>\<open>if dcl_version\<close>:
  \<^verbatim>\<open>None\<close> and the empty string are false.
\<close>

fun truthy :: "string option \<Rightarrow> bool" where
  "truthy None = False"
| "truthy (Some s) = (s \<noteq> [])"

subsection \<open>\<^verbatim>\<open>is_private_ip\<close>, \<^verbatim>\<open>get_node_type\<close>, \<^verbatim>\<open>get_org\<close>\<close>

definition is_private_ip :: "string \<Rightarrow> bool" where
  "is_private_ip ip =
     (startswith ip ''10.'' \<or>
      startswith ip ''172.16.'' \<or> startswith ip ''172.17.'' \<or>
      startswith ip ''172.18.'' \<or> startswith ip ''172.19.'' \<or>
      startswith ip ''172.2'' \<or> startswith ip ''172.30.'' \<or> startswith ip ''172.31.'' \<or>
      startswith ip ''192.168.'' \<or>
      startswith ip ''127.'')"

text \<open>
  The prefixes the specification lists: \<open>10.\<close>, \<open>172.16.\<close> to \<open>172.31.\<close>, \<open>192.168.\<close>
  and \<open>127.\<close>.
\<close>

definition private_prefixes :: "string list" where
  "private_prefixes =
     [''10.'',
      ''172.16.'', ''172.17.'', ''172.18.'', ''172.19.'',
      ''172.20.'', ''172.21.'', ''172.22.'', ''172.23.'', ''172.24.'',
      ''172.25.'', ''172.26.'', ''172.27.'', ''172.28.'', ''172.29.'',
      ''172.30.'', ''172.31.'',
      ''192.168.'',
      ''127.'']"

definition has_private_prefix :: "string \<Rightarrow> bool" where
  "has_private_prefix ip = list_ex (startswith ip) private_prefixes"

definition get_node_type :: "string \<Rightarrow> string" where
  "get_node_type moniker =
     (let m = lower moniker in
      if contains m ''-vn-'' \<or> endswith m ''-vn'' then ''validator''
      else if contains m ''-sn-'' \<or> contains m ''sentry'' then ''sentry''
      else if contains m ''-on-'' \<or> contains m ''observer'' then ''observer''
      else if contains m ''seed'' then ''seed''
      else ''unknown'')"

definition get_org :: "string \<Rightarrow> string" where
  "get_org moniker =
     (if contains moniker ''-'' then split_first CHR ''-'' moniker else moniker)"

subsection \<open>Edges and \<^verbatim>\<open>add_edge\<close> of \<^verbatim>\<open>discover_peers.py\<close>\<close>

record edge =
  source :: string
  target :: string

text \<open>
  \<^verbatim>\<open>tuple(sorted([source_id, target_id]))\<close>: the sort is stable, so the pair is swapped
  only when the second identity is strictly smaller.
\<close>

definition edge_key :: "string \<Rightarrow> string \<Rightarrow> string \<times> string" where
  "edge_key source_id target_id =
     (if target_id < source_id then (target_id, source_id) else (source_id, target_id))"

subsection \<open>The RPC query interface\<close>

text \<open>
  The three queries are network calls; the crawler sees only what they return. A run is
  modelled against one table of answers per address: \<^verbatim>\<open>query_net_info\<close> returns the
  peer entries of the JSON answer (the empty list on any failure), \<^verbatim>\<open>query_status\<close>
  and \<^verbatim>\<open>query_abci_info\<close> return \<^verbatim>\<open>None\<close> on failure. A field of an answer is a
  string or is missing.
\<close>

record peer_entry =
  pe_id :: "string option"         \<comment> \<open>\<^verbatim>\<open>peer["node_info"]["id"]\<close>\<close>
  pe_remote_ip :: "string option"  \<comment> \<open>\<^verbatim>\<open>peer["remote_ip"]\<close>\<close>
  pe_moniker :: "string option"    \<comment> \<open>\<^verbatim>\<open>peer["node_info"]["moniker"]\<close>\<close>
  pe_version :: "string option"    \<comment> \<open>\<^verbatim>\<open>peer["node_info"]["version"]\<close>\<close>

record status_info =
  st_id :: "string option"
  st_moniker :: "string option"
  st_version :: "string option"
  st_height :: "string option"

record rpc =
  query_net_info :: "string \<Rightarrow> peer_entry list"
  query_status :: "string \<Rightarrow> status_info option"
  query_abci_info :: "string \<Rightarrow> string option"

text \<open>\<^verbatim>\<open>d.get(key, default)\<close> for a key that may be missing.\<close>

fun get_default :: "string option \<Rightarrow> string \<Rightarrow> string" where
  "get_default None d = d"
| "get_default (Some v) d = v"

subsection \<open>Node records\<close>

text \<open>
  The dictionary stored per identity. \<^verbatim>\<open>peer_network.py\<close> adds the key
  \<^verbatim>\<open>_discovered\<close> to a record once its peer list has been read; a record without the
  key reads as false there.
\<close>

record peer_info =
  node_id :: string                       \<comment> \<open>key \<^verbatim>\<open>id\<close>\<close>
  ip :: string
  port :: nat
  moniker :: string
  tendermint_version :: "string option"
  node_type :: string                     \<comment> \<open>key \<^verbatim>\<open>type\<close>\<close>
  org :: string
  rpc_url :: string
  rpc_accessible :: bool
  dcl_version :: "string option"
  height :: "string option"

record node = peer_info +
  discovered :: bool                      \<comment> \<open>key \<^verbatim>\<open>_discovered\<close>\<close>

datatype error = AttributeError | IndexError

subsection \<open>\<^verbatim>\<open>discover_peers.py\<close>: state, \<^verbatim>\<open>add_edge\<close>, \<^verbatim>\<open>discover_from_node\<close>\<close>

text \<open>The module's globals. A dictionary keeps insertion order, so it is an association list.\<close>

record cli_state =
  discovered_peers :: "(string \<times> peer_info) list"
  edges :: "edge list"
  edge_set :: "(string \<times> string) set"
  visited_rpcs :: "string set"

definition cli_init :: cli_state where
  "cli_init = \<lparr>discovered_peers = [], edges = [], edge_set = {}, visited_rpcs = {}\<rparr>"

definition add_edge :: "string \<Rightarrow> string \<Rightarrow> cli_state \<Rightarrow> cli_state" where
  "add_edge source_id target_id s =
     (let edge_key = edge_key source_id target_id in
      if edge_key \<notin> edge_set s
      then s\<lparr>edge_set := insert edge_key (edge_set s),
             edges := edges s @ [\<lparr>source = source_id, target = target_id\<rparr>]\<rparr>
      else s)"

text \<open>The record \<^verbatim>\<open>discover_from_node\<close> stores for a peer it has not seen before.\<close>

definition new_peer :: "string \<Rightarrow> string \<Rightarrow> peer_entry \<Rightarrow> peer_info" where
  "new_peer peer_id remote_ip peer =
     (let moniker = get_default (pe_moniker peer) ''unknown'' in
      \<lparr>node_id = peer_id,
       ip = remote_ip,
       port = 26656,
       moniker = moniker,
       tendermint_version = Some (get_default (pe_version peer) ''unknown''),
       node_type = get_node_type moniker,
       org = get_org moniker,
       rpc_url = ''http://'' @ remote_ip @ '':26657'',
       rpc_accessible = False,
       dcl_version = None,
       height = None\<rparr>)"

text \<open>One pass of the \<^verbatim>\<open>for peer in peers\<close> loop of \<^verbatim>\<open>discover_from_node\<close>.\<close>

definition process_peer :: "string \<Rightarrow> peer_entry \<Rightarrow> cli_state \<Rightarrow> cli_state" where
  "process_peer source_id peer s =
     (case (pe_id peer, pe_remote_ip peer) of
        (Some peer_id, Some remote_ip) \<Rightarrow>
          if peer_id = [] \<or> remote_ip = [] then s
          else if is_private_ip remote_ip then s
          else
            let s1 = (if map_of (discovered_peers s) peer_id = None
                      then s\<lparr>discovered_peers :=
                               AList.update peer_id (new_peer peer_id remote_ip peer)
                                 (discovered_peers s)\<rparr>
                      else s)
            in if source_id \<noteq> [] then add_edge source_id peer_id s1 else s1
      | _ \<Rightarrow> s)"

definition process_peers :: "string \<Rightarrow> peer_entry list \<Rightarrow> cli_state \<Rightarrow> cli_state" where
  "process_peers source_id peers s = fold (process_peer source_id) peers s"

text \<open>
  \<^verbatim>\<open>discover_from_node\<close>. The list of new peers it returns is dropped by every caller, so
  the model returns the state only.
\<close>

definition discover_from_node :: "rpc \<Rightarrow> string \<Rightarrow> string \<Rightarrow> cli_state \<Rightarrow> cli_state" where
  "discover_from_node r source_id url s =
     (if url \<in> visited_rpcs s then s
      else process_peers source_id (query_net_info r url)
             (s\<lparr>visited_rpcs := insert url (visited_rpcs s)\<rparr>))"

subsection \<open>\<^verbatim>\<open>discover_peers.py\<close>: \<^verbatim>\<open>crawl_network\<close> and \<^verbatim>\<open>check_peer\<close>\<close>


text \<open>\<^verbatim>\<open>s.replace(old, "")\<close>: every occurrence of \<open>old\<close>, scanned from the left, is removed.\<close>

fun str_remove :: "string \<Rightarrow> string \<Rightarrow> string" where
  "str_remove old [] = []"
| "str_remove old (c # cs) =
     (if old \<noteq> [] \<and> startswith (c # cs) old
      then str_remove old (drop (length old) (c # cs))
      else c # str_remove old cs)"

text \<open>The record the seed loop of \<^verbatim>\<open>crawl_network\<close> stores for a seed that answered.\<close>

definition seed_record ::
  "string \<Rightarrow> string \<Rightarrow> string \<Rightarrow> status_info \<Rightarrow> string option \<Rightarrow> peer_info" where
  "seed_record seed seed_id moniker' st dcl =
     \<lparr>node_id = seed_id,
      ip = split_first CHR '':'' (str_remove ''http://'' (str_remove ''https://'' seed)),
      port = 26656,
      moniker = moniker',
      tendermint_version = st_version st,
      node_type = get_node_type moniker',
      org = get_org moniker',
      rpc_url = seed,
      rpc_accessible = True,
      dcl_version = dcl,
      height = st_height st\<rparr>"

text \<open>\<^verbatim>\<open>discovered_peers[seed_id] = {...}\<close>: the record is stored whether or not the key exists.\<close>

definition store_seed ::
  "string \<Rightarrow> string \<Rightarrow> string \<Rightarrow> status_info \<Rightarrow> string option \<Rightarrow> cli_state \<Rightarrow> cli_state" where
  "store_seed seed seed_id moniker' st dcl s =
     s\<lparr>discovered_peers :=
         AList.update seed_id (seed_record seed seed_id moniker' st dcl) (discovered_peers s)\<rparr>"

text \<open>
  One pass of the \<^verbatim>\<open>for seed in SEED_NODES\<close> loop. \<^verbatim>\<open>query_status\<close> always puts the key
  \<^verbatim>\<open>moniker\<close> into its answer, so \<^verbatim>\<open>status.get("moniker", "unknown")\<close> is \<^verbatim>\<open>None\<close> when
  the node sent none, and \<^verbatim>\<open>get_node_type\<close> then raises on \<^verbatim>\<open>None.lower()\<close> before
  anything is stored.
\<close>

definition seed_step :: "rpc \<Rightarrow> string \<Rightarrow> cli_state \<Rightarrow> error + cli_state" where
  "seed_step r seed s =
     (case query_status r seed of
        None \<Rightarrow> Inr s
      | Some st \<Rightarrow>
          (case st_id st of
             None \<Rightarrow> Inr s
           | Some seed_id \<Rightarrow>
               if seed_id = [] then Inr s
               else
                 (case st_moniker st of
                    None \<Rightarrow> Inl AttributeError
                  | Some moniker' \<Rightarrow>
                      let dcl = query_abci_info r seed;
                          s1 = store_seed seed seed_id moniker' st dcl s
                      in Inr (discover_from_node r seed_id seed s1))))"

fun seed_phase :: "rpc \<Rightarrow> string list \<Rightarrow> cli_state \<Rightarrow> error + cli_state" where
  "seed_phase r [] s = Inr s"
| "seed_phase r (seed # seeds) s =
     (case seed_step r seed s of
        Inl e \<Rightarrow> Inl e
      | Inr s1 \<Rightarrow> seed_phase r seeds s1)"

text \<open>The frontier: \<^verbatim>\<open>peers_to_query\<close>, in dictionary order.\<close>

definition peers_to_query :: "cli_state \<Rightarrow> (string \<times> string) list" where
  "peers_to_query s =
     map (\<lambda>(pid, p). (pid, rpc_url p))
       (filter (\<lambda>(pid, p). rpc_url p \<notin> visited_rpcs s) (discovered_peers s))"

text \<open>
  One pass of the \<^verbatim>\<open>while True\<close> loop with a non-empty frontier. The thread pool runs
  one \<^verbatim>\<open>discover_from_node\<close> per frontier member and the loop waits for all of them. The
  model runs the tasks one after the other, in the order \<open>sched\<close> gives them: \<open>sched\<close>
  stands for the order in which the pool happens to run them.
\<close>

definition iteration ::
  "((string \<times> string) list \<Rightarrow> (string \<times> string) list) \<Rightarrow> rpc \<Rightarrow> cli_state \<Rightarrow> cli_state" where
  "iteration sched r s =
     fold (\<lambda>(pid, url). discover_from_node r pid url) (sched (peers_to_query s)) s"

partial_function (option) crawl_loop ::
  "((string \<times> string) list \<Rightarrow> (string \<times> string) list) \<Rightarrow> rpc \<Rightarrow> cli_state \<Rightarrow> cli_state option"
where
  "crawl_loop sched r s =
     (if peers_to_query s = [] then Some s
      else crawl_loop sched r (iteration sched r s))"

declare crawl_loop.simps [code]

definition crawl_network ::
  "((string \<times> string) list \<Rightarrow> (string \<times> string) list) \<Rightarrow> rpc \<Rightarrow> string list \<Rightarrow> cli_state
     \<Rightarrow> (error + cli_state) option" where
  "crawl_network sched r seeds s =
     (case seed_phase r seeds s of
        Inl e \<Rightarrow> Some (Inl e)
      | Inr s1 \<Rightarrow> map_option Inr (crawl_loop sched r s1))"

text \<open>
  \<^verbatim>\<open>check_peer\<close> of \<^verbatim>\<open>check_rpc_accessibility\<close>: it changes the record it is given and
  returns the identity when the node is reachable.
\<close>

definition check_peer :: "rpc \<Rightarrow> string \<Rightarrow> peer_info \<Rightarrow> peer_info \<times> string option" where
  "check_peer r peer_id info =
     (if rpc_accessible info then (info, Some peer_id)
      else
        (case query_status r (rpc_url info) of
           Some st \<Rightarrow>
             (info\<lparr>rpc_accessible := True,
                   dcl_version := query_abci_info r (rpc_url info),
                   height := st_height st\<rparr>,
              Some peer_id)
         | None \<Rightarrow> (info, None)))"

subsection \<open>\<^verbatim>\<open>peer_network.py\<close>: state, \<^verbatim>\<open>add_node\<close>, \<^verbatim>\<open>add_edge\<close>, \<^verbatim>\<open>discover_from_node\<close>\<close>


datatype run_status = Idle | Discovering | Complete

record stats =
  total_nodes :: nat
  total_edges :: nat
  accessible_rpc :: nat

text \<open>
  The dictionary \<^verbatim>\<open>network\<close> and the globals \<^verbatim>\<open>visited_rpcs\<close> and \<^verbatim>\<open>edge_set\<close>. The
  discovery log (time-stamped messages for the page) is left out.
\<close>

record pn_state =
  nodes :: "(string \<times> node) list"
  pn_edges :: "edge list"                  \<comment> \<open>\<^verbatim>\<open>network["edges"]\<close>\<close>
  status :: run_status
  stats :: stats
  pn_visited_rpcs :: "string set"
  pn_edge_set :: "(string \<times> string) set"

definition pn_init :: pn_state where
  "pn_init =
     \<lparr>nodes = [], pn_edges = [], status = Idle,
      stats = \<lparr>total_nodes = 0, total_edges = 0, accessible_rpc = 0\<rparr>,
      pn_visited_rpcs = {}, pn_edge_set = {}\<rparr>"

definition add_node ::
  "string \<Rightarrow> string \<Rightarrow> nat \<Rightarrow> string \<Rightarrow> string option \<Rightarrow> bool \<Rightarrow> string option \<Rightarrow> string option
     \<Rightarrow> pn_state \<Rightarrow> pn_state" where
  "add_node peer_id ip' port' moniker' version rpc_accessible' dcl_version' height' s =
     (case map_of (nodes s) peer_id of
        None \<Rightarrow>
          let ns = AList.update peer_id
                     \<lparr>node_id = peer_id,
                      ip = ip',
                      port = port',
                      moniker = moniker',
                      tendermint_version = version,
                      node_type = get_node_type moniker',
                      org = get_org moniker',
                      rpc_url = ''http://'' @ ip' @ '':26657'',
                      rpc_accessible = rpc_accessible',
                      dcl_version = dcl_version',
                      height = height',
                      discovered = False\<rparr>
                     (nodes s)
          in s\<lparr>nodes := ns, stats := (stats s)\<lparr>total_nodes := length ns\<rparr>\<rparr>
      | Some n \<Rightarrow>
          let n1 = (if rpc_accessible' then n\<lparr>rpc_accessible := True\<rparr> else n);
              n2 = (if truthy dcl_version' then n1\<lparr>dcl_version := dcl_version'\<rparr> else n1);
              n3 = (if truthy height' then n2\<lparr>height := height'\<rparr> else n2)
          in s\<lparr>nodes := AList.update peer_id n3 (nodes s)\<rparr>)"

definition pn_add_edge :: "string \<Rightarrow> string \<Rightarrow> pn_state \<Rightarrow> pn_state" where
  "pn_add_edge source_id target_id s =
     (let edge_key = edge_key source_id target_id in
      if edge_key \<notin> pn_edge_set s
      then
        let es = pn_edges s @ [\<lparr>source = source_id, target = target_id\<rparr>]
        in s\<lparr>pn_edge_set := insert edge_key (pn_edge_set s),
              pn_edges := es,
              stats := (stats s)\<lparr>total_edges := length es\<rparr>\<rparr>
      else s)"

definition pn_process_peer :: "string \<Rightarrow> peer_entry \<Rightarrow> pn_state \<Rightarrow> pn_state" where
  "pn_process_peer source_id peer s =
     (case (pe_id peer, pe_remote_ip peer) of
        (Some peer_id, Some remote_ip) \<Rightarrow>
          if peer_id = [] \<or> remote_ip = [] then s
          else if is_private_ip remote_ip then s
          else
            let s1 = add_node peer_id remote_ip 26656
                       (get_default (pe_moniker peer) ''unknown'')
                       (Some (get_default (pe_version peer) ''unknown''))
                       False None None s
            in if source_id \<noteq> [] then pn_add_edge source_id peer_id s1 else s1
      | _ \<Rightarrow> s)"

definition pn_process_peers :: "string \<Rightarrow> peer_entry list \<Rightarrow> pn_state \<Rightarrow> pn_state" where
  "pn_process_peers source_id peers s = fold (pn_process_peer source_id) peers s"

text \<open>As in the other program, the returned list is dropped by every caller.\<close>

definition pn_discover_from_node :: "rpc \<Rightarrow> string \<Rightarrow> string \<Rightarrow> pn_state \<Rightarrow> pn_state" where
  "pn_discover_from_node r source_id url s =
     (if url \<in> pn_visited_rpcs s then s
      else pn_process_peers source_id (query_net_info r url)
             (s\<lparr>pn_visited_rpcs := insert url (pn_visited_rpcs s)\<rparr>))"

subsection \<open>\<^verbatim>\<open>peer_network.py\<close>: \<^verbatim>\<open>crawl_worker\<close> and \<^verbatim>\<open>start_discovery\<close>\<close>

text \<open>
  \<^verbatim>\<open>network["nodes"][peer_id]["_discovered"] = True\<close>. Both places that run it hold a
  \<open>peer_id\<close> that is a key of the registry.
\<close>

definition mark_discovered :: "string \<Rightarrow> pn_state \<Rightarrow> pn_state" where
  "mark_discovered peer_id s =
     s\<lparr>nodes := AList.map_entry peer_id (\<lambda>n. n\<lparr>discovered := True\<rparr>) (nodes s)\<rparr>"

text \<open>
  The first half of \<^verbatim>\<open>crawl_worker\<close>: ask the node for its status and, when it answers,
  merge the answer into its record and recount the reachable nodes.
\<close>

definition refresh_node :: "rpc \<Rightarrow> string \<Rightarrow> node \<Rightarrow> pn_state \<Rightarrow> pn_state" where
  "refresh_node r peer_id peer_info s =
     (let url = rpc_url peer_info in
      case query_status r url of
        None \<Rightarrow> s
      | Some st \<Rightarrow>
          let dcl = query_abci_info r url;
              s' = add_node peer_id (ip peer_info) (port peer_info)
                     (moniker peer_info) (tendermint_version peer_info)
                     True dcl (st_height st) s
          in s'\<lparr>stats := (stats s')
                  \<lparr>accessible_rpc :=
                     length (filter (\<lambda>(pid, n). rpc_accessible n) (nodes s'))\<rparr>\<rparr>)"

definition crawl_worker :: "rpc \<Rightarrow> string \<Rightarrow> pn_state \<Rightarrow> pn_state" where
  "crawl_worker r peer_id s =
     (case map_of (nodes s) peer_id of
        None \<Rightarrow> s
      | Some peer_info \<Rightarrow>
          let s1 = refresh_node r peer_id peer_info s;
              s2 = pn_discover_from_node r peer_id (rpc_url peer_info) s1
          in mark_discovered peer_id s2)"

text \<open>\<^verbatim>\<open>s.split(sep)\<close>: the text after the first \<open>sep\<close>, and the text before it.\<close>

fun after_first :: "string \<Rightarrow> string \<Rightarrow> string option" where
  "after_first sep [] = None"
| "after_first sep (c # cs) =
     (if startswith (c # cs) sep then Some (drop (length sep) (c # cs))
      else after_first sep cs)"

fun before_first :: "string \<Rightarrow> string \<Rightarrow> string" where
  "before_first sep [] = []"
| "before_first sep (c # cs) =
     (if startswith (c # cs) sep then [] else c # before_first sep cs)"

text \<open>
  \<^verbatim>\<open>rpc_url.split("//")[1].split(":")[0]\<close>: the second piece of the split at \<open>//\<close>, up to
  its first colon; an \<^verbatim>\<open>IndexError\<close> when the address holds no \<open>//\<close>.
\<close>

definition seed_ip :: "string \<Rightarrow> error + string" where
  "seed_ip url =
     (case after_first ''//'' url of
        None \<Rightarrow> Inl IndexError
      | Some rest \<Rightarrow> Inr (split_first CHR '':'' (before_first ''//'' rest)))"

text \<open>One pass of the \<^verbatim>\<open>for rpc_url, moniker in SEED_NODES\<close> loop.\<close>

definition pn_seed_step :: "rpc \<Rightarrow> string \<times> string \<Rightarrow> pn_state \<Rightarrow> error + pn_state" where
  "pn_seed_step r seed s =
     (case seed of (url, moniker') \<Rightarrow>
        (case query_status r url of
           None \<Rightarrow> Inr s
         | Some st \<Rightarrow>
             (case st_id st of
                None \<Rightarrow> Inr s
              | Some seed_id \<Rightarrow>
                  if seed_id = [] then Inr s
                  else
                    let dcl = query_abci_info r url in
                    (case seed_ip url of
                       Inl e \<Rightarrow> Inl e
                     | Inr ip' \<Rightarrow>
                         let s1 = add_node seed_id ip' 26656 moniker' (st_version st)
                                    True dcl (st_height st) s;
                             s2 = pn_discover_from_node r seed_id url s1
                         in Inr (mark_discovered seed_id s2)))))"

fun pn_seed_phase :: "rpc \<Rightarrow> (string \<times> string) list \<Rightarrow> pn_state \<Rightarrow> error + pn_state" where
  "pn_seed_phase r [] s = Inr s"
| "pn_seed_phase r (seed # seeds) s =
     (case pn_seed_step r seed s of
        Inl e \<Rightarrow> Inl e
      | Inr s1 \<Rightarrow> pn_seed_phase r seeds s1)"

text \<open>The frontier of the web crawler: \<^verbatim>\<open>peers_to_crawl\<close>.\<close>

definition peers_to_crawl :: "pn_state \<Rightarrow> string list" where
  "peers_to_crawl s =
     map fst
       (filter (\<lambda>(pid, pinfo). \<not> discovered pinfo \<and> rpc_url pinfo \<notin> pn_visited_rpcs s)
          (nodes s))"

definition pn_iteration :: "(string list \<Rightarrow> string list) \<Rightarrow> rpc \<Rightarrow> pn_state \<Rightarrow> pn_state" where
  "pn_iteration sched r s = fold (crawl_worker r) (sched (peers_to_crawl s)) s"

partial_function (option) pn_crawl_loop ::
  "(string list \<Rightarrow> string list) \<Rightarrow> rpc \<Rightarrow> pn_state \<Rightarrow> pn_state option"
where
  "pn_crawl_loop sched r s =
     (if peers_to_crawl s = [] then Some s
      else pn_crawl_loop sched r (pn_iteration sched r s))"

declare pn_crawl_loop.simps [code]

text \<open>The reset under the lock at the head of \<^verbatim>\<open>start_discovery\<close>.\<close>

definition reset :: "pn_state \<Rightarrow> pn_state" where
  "reset s =
     s\<lparr>status := Discovering, nodes := [], pn_edges := [],
       stats := \<lparr>total_nodes = 0, total_edges = 0, accessible_rpc = 0\<rparr>,
       pn_visited_rpcs := {}, pn_edge_set := {}\<rparr>"

text \<open>
  \<^verbatim>\<open>start_discovery\<close>. An exception in the seed loop ends the thread with the status
  still \<^verbatim>\<open>discovering\<close>; the result is then the error. \<open>None\<close> is a crawl loop that
  runs forever.
\<close>

definition start_discovery ::
  "(string list \<Rightarrow> string list) \<Rightarrow> rpc \<Rightarrow> (string \<times> string) list \<Rightarrow> pn_state
     \<Rightarrow> (error + pn_state) option" where
  "start_discovery sched r seeds s =
     (case pn_seed_phase r seeds (reset s) of
        Inl e \<Rightarrow> Some (Inl e)
      | Inr s1 \<Rightarrow>
          (case pn_crawl_loop sched r s1 of
             None \<Rightarrow> None
           | Some s2 \<Rightarrow> Some (Inr (s2\<lparr>status := Complete\<rparr>))))"

subsection \<open>Predicates on the stores\<close>

text \<open>The deduplication key of a stored edge.\<close>

definition edge_key_of :: "edge \<Rightarrow> string \<times> string" where
  "edge_key_of e = edge_key (source e) (target e)"

text \<open>
  The deduplication set holds the keys of the stored edges, and no two stored edges
  have the same key.
\<close>

definition edges_consistent :: "cli_state \<Rightarrow> bool" where
  "edges_consistent s =
     (edge_set s = edge_key_of ` set (edges s) \<and> distinct (map edge_key_of (edges s)))"

definition pn_edges_consistent :: "pn_state \<Rightarrow> bool" where
  "pn_edges_consistent s =
     (pn_edge_set s = edge_key_of ` set (pn_edges s)
      \<and> distinct (map edge_key_of (pn_edges s)))"

text \<open>The published counters agree with the stores.\<close>

definition stats_ok :: "pn_state \<Rightarrow> bool" where
  "stats_ok s =
     (total_nodes (stats s) = length (nodes s) \<and> total_edges (stats s) = length (pn_edges s))"

subsection \<open>The points of a run\<close>

text \<open>
  \<^verbatim>\<open>discover_from_node\<close> stopped after the first \<open>k\<close> entries of the peer list: the state
  at a point inside its loop. With \<open>k\<close> the length of the list it is the whole call.
\<close>

definition discover_upto ::
  "nat \<Rightarrow> rpc \<Rightarrow> string \<Rightarrow> string \<Rightarrow> cli_state \<Rightarrow> cli_state" where
  "discover_upto k r source_id url s =
     (if url \<in> visited_rpcs s then s
      else process_peers source_id (take k (query_net_info r url))
             (s\<lparr>visited_rpcs := insert url (visited_rpcs s)\<rparr>))"

definition pn_discover_upto ::
  "nat \<Rightarrow> rpc \<Rightarrow> string \<Rightarrow> string \<Rightarrow> pn_state \<Rightarrow> pn_state" where
  "pn_discover_upto k r source_id url s =
     (if url \<in> pn_visited_rpcs s then s
      else pn_process_peers source_id (take k (query_net_info r url))
             (s\<lparr>pn_visited_rpcs := insert url (pn_visited_rpcs s)\<rparr>))"

text \<open>
  The steps of a run of \<^verbatim>\<open>discover_peers.py\<close> (\<^verbatim>\<open>main\<close> calls \<^verbatim>\<open>crawl_network\<close>, then
  \<^verbatim>\<open>check_rpc_accessibility\<close>), each with the condition under which the program takes it:
  \<^item> a seed that answered \<^verbatim>\<open>query_status\<close> with an identity and a moniker is stored;
  \<^item> \<^verbatim>\<open>discover_from_node(seed_id, seed)\<close> then runs, up to some entry of the peer list;
  \<^item> a task of the crawl loop, made from an entry \<open>(pid, p)\<close> of the registry, runs
    \<^verbatim>\<open>discover_from_node(pid, p["rpc_url"])\<close> up to some entry of the peer list;
  \<^item> \<^verbatim>\<open>check_peer\<close> updates the record of an entry of the registry.
  The answers of the network may differ from step to step.
\<close>

inductive cli_step :: "cli_state \<Rightarrow> cli_state \<Rightarrow> bool" where
  seed_stored:
    "\<lbrakk>query_status (r::rpc) seed = Some (st::status_info); st_id st = Some seed_id; seed_id \<noteq> [];
      st_moniker st = Some moniker'\<rbrakk>
     \<Longrightarrow> cli_step s (store_seed seed seed_id moniker' st (query_abci_info r seed) s)"
| seed_discover:
    "\<lbrakk>query_status (r::rpc) seed = Some (st::status_info); st_id st = Some seed_id; seed_id \<noteq> [];
      st_moniker st = Some moniker'\<rbrakk>
     \<Longrightarrow> cli_step s
           (discover_upto k r seed_id seed
              (store_seed seed seed_id moniker' st (query_abci_info r seed) s))"
| task:
    "map_of (discovered_peers s) pid = Some p
     \<Longrightarrow> cli_step s (discover_upto k (r::rpc) pid (rpc_url p) s)"
| checked:
    "map_of (discovered_peers s) pid = Some p
     \<Longrightarrow> cli_step s
           (s\<lparr>discovered_peers :=
                AList.update pid (fst (check_peer (r::rpc) pid p)) (discovered_peers s)\<rparr>)"

definition cli_reach :: "cli_state \<Rightarrow> bool" where
  "cli_reach s = cli_step\<^sup>*\<^sup>* cli_init s"

text \<open>
  The steps of a run of \<^verbatim>\<open>start_discovery\<close> in \<^verbatim>\<open>peer_network.py\<close>, after the reset:
  the three stages of a seed (\<^verbatim>\<open>add_node\<close>, \<^verbatim>\<open>discover_from_node\<close> up to some entry, the
  mark), the three stages of \<^verbatim>\<open>crawl_worker\<close> for an identity that it finds in the
  registry, and the final status.
\<close>

inductive pn_step :: "pn_state \<Rightarrow> pn_state \<Rightarrow> bool" where
  seed_added:
    "\<lbrakk>query_status (r::rpc) url = Some (st::status_info); st_id st = Some seed_id; seed_id \<noteq> [];
      seed_ip url = Inr ip'\<rbrakk>
     \<Longrightarrow> pn_step s
           (add_node seed_id ip' 26656 moniker' (st_version st) True
              (query_abci_info r url) (st_height st) s)"
| seed_discovering:
    "\<lbrakk>query_status (r::rpc) url = Some (st::status_info); st_id st = Some seed_id; seed_id \<noteq> [];
      seed_ip url = Inr ip'\<rbrakk>
     \<Longrightarrow> pn_step s
           (pn_discover_upto k r seed_id url
              (add_node seed_id ip' 26656 moniker' (st_version st) True
                 (query_abci_info r url) (st_height st) s))"
| seed_done:
    "pn_seed_step (r::rpc) seed s = Inr s' \<Longrightarrow> pn_step s s'"
| worker_refreshed:
    "map_of (nodes s) pid = Some p \<Longrightarrow> pn_step s (refresh_node (r::rpc) pid p s)"
| worker_discovering:
    "map_of (nodes s) pid = Some p
     \<Longrightarrow> pn_step s (pn_discover_upto k (r::rpc) pid (rpc_url p) (refresh_node r pid p s))"
| worker_done:
    "pn_step s (crawl_worker (r::rpc) pid s)"
| completed:
    "pn_step s (s\<lparr>status := Complete\<rparr>)"

definition pn_reach :: "pn_state \<Rightarrow> bool" where
  "pn_reach s = (\<exists>s0. pn_step\<^sup>*\<^sup>* (reset s0) s)"

text \<open>Both ends of every stored edge are keys of the registry.\<close>

definition edges_closed :: "cli_state \<Rightarrow> bool" where
  "edges_closed s =
     (\<forall>e \<in> set (edges s).
        source e \<in> fst ` set (discovered_peers s) \<and> target e \<in> fst ` set (discovered_peers s))"

definition pn_edges_closed :: "pn_state \<Rightarrow> bool" where
  "pn_edges_closed s =
     (\<forall>e \<in> set (pn_edges s).
        source e \<in> fst ` set (nodes s) \<and> target e \<in> fst ` set (nodes s))"

subsection \<open>A small network for concrete runs\<close>

text \<open>
  Two seeds, \<open>n1\<close> at \<open>198.51.100.1\<close> and \<open>n2\<close> at \<open>198.51.100.2\<close>, both with the one
  peer \<open>n3\<close> at \<open>198.51.100.3\<close>; \<open>n3\<close> does not answer.
\<close>

definition demo_peer :: peer_entry where
  "demo_peer =
     \<lparr>pe_id = Some ''n3'', pe_remote_ip = Some ''198.51.100.3'',
      pe_moniker = Some ''acme-vn-03'', pe_version = Some ''0.34.24''\<rparr>"

definition demo_status :: "string \<Rightarrow> status_info" where
  "demo_status i =
     \<lparr>st_id = Some i, st_moniker = Some ''acme-sn-01'', st_version = Some ''0.34.24'',
      st_height = Some ''1200''\<rparr>"

definition demo_rpc :: rpc where
  "demo_rpc =
     \<lparr>query_net_info =
        (\<lambda>url. if url = ''http://198.51.100.1:26657'' \<or> url = ''http://198.51.100.2:26657''
              then [demo_peer] else []),
      query_status =
        (\<lambda>url. if url = ''http://198.51.100.1:26657'' then Some (demo_status ''n1'')
              else if url = ''http://198.51.100.2:26657'' then Some (demo_status ''n2'')
              else None),
      query_abci_info = (\<lambda>url. None)\<rparr>"

text \<open>
  The command-line crawler after the first seed and the first entry of its peer list,
  and the web crawler after the first seed was added and its worker has run.
\<close>

definition demo_cli_point :: cli_state where
  "demo_cli_point =
     discover_upto 1 demo_rpc ''n1'' ''http://198.51.100.1:26657''
       (store_seed ''http://198.51.100.1:26657'' ''n1'' ''acme-sn-01'' (demo_status ''n1'')
          (query_abci_info demo_rpc ''http://198.51.100.1:26657'') cli_init)"

definition demo_pn_seeded :: pn_state where
  "demo_pn_seeded =
     add_node ''n1'' ''198.51.100.1'' 26656 ''CSA-ON-01'' (st_version (demo_status ''n1'')) True
       (query_abci_info demo_rpc ''http://198.51.100.1:26657'')
       (st_height (demo_status ''n1'')) (reset pn_init)"

definition demo_pn_point :: pn_state where
  "demo_pn_point = crawl_worker demo_rpc ''n1'' demo_pn_seeded"

text \<open>
  The command-line crawler knowing \<open>n3\<close> from a peer list, and a seed address whose node
  reports the identity \<open>n3\<close> under another name.
\<close>

definition demo_cli_peer_known :: cli_state where
  "demo_cli_peer_known = process_peer [] demo_peer cli_init"

definition demo_seed_status :: status_info where
  "demo_seed_status =
     \<lparr>st_id = Some ''n3'', st_moniker = Some ''beta-on-07'', st_version = Some ''0.34.24'',
      st_height = Some ''1200''\<rparr>"

definition demo_seed_rpc :: rpc where
  "demo_seed_rpc =
     \<lparr>query_net_info = (\<lambda>url. []),
      query_status =
        (\<lambda>url. if url = ''http://203.0.113.9:26657'' then Some demo_seed_status else None),
      query_abci_info = (\<lambda>url. None)\<rparr>"

subsection \<open>Merge updates\<close>

text \<open>
  A sequence of calls of \<^verbatim>\<open>add_node\<close>, each with its eight arguments, and the
  reachability flag stored for an identity (false when the identity is unknown).
\<close>

record add_node_call =
  call_peer_id :: string
  call_ip :: string
  call_port :: nat
  call_moniker :: string
  call_version :: "string option"
  call_rpc_accessible :: bool
  call_dcl_version :: "string option"
  call_height :: "string option"

definition apply_add_node :: "add_node_call \<Rightarrow> pn_state \<Rightarrow> pn_state" where
  "apply_add_node c s =
     add_node (call_peer_id c) (call_ip c) (call_port c) (call_moniker c) (call_version c)
       (call_rpc_accessible c) (call_dcl_version c) (call_height c) s"

definition add_nodes :: "add_node_call list \<Rightarrow> pn_state \<Rightarrow> pn_state" where
  "add_nodes calls s = fold apply_add_node calls s"

definition is_accessible :: "pn_state \<Rightarrow> string \<Rightarrow> bool" where
  "is_accessible s pid =
     (case map_of (nodes s) pid of Some n \<Rightarrow> rpc_accessible n | None \<Rightarrow> False)"

definition cli_accessible :: "cli_state \<Rightarrow> string \<Rightarrow> bool" where
  "cli_accessible s pid =
     (case map_of (discovered_peers s) pid of Some p \<Rightarrow> rpc_accessible p | None \<Rightarrow> False)"

text \<open>
  A record of the command-line crawler is settled when it is marked reachable or holds
  neither an application version nor a height: the two shapes in which the crawler
  creates records.
\<close>

definition settled :: "peer_info \<Rightarrow> bool" where
  "settled p = (rpc_accessible p \<or> (dcl_version p = None \<and> height p = None))"

definition all_settled :: "cli_state \<Rightarrow> bool" where
  "all_settled s = (\<forall>(pid, p) \<in> set (discovered_peers s). settled p)"

text \<open>A merge update for \<open>n1\<close> that supplies no reachability, version or height.\<close>

definition demo_call :: add_node_call where
  "demo_call =
     \<lparr>call_peer_id = ''n1'', call_ip = ''198.51.100.1'', call_port = 26656,
      call_moniker = ''acme-sn-01'', call_version = Some ''0.34.24'',
      call_rpc_accessible = False, call_dcl_version = None, call_height = None\<rparr>"

subsection \<open>Finite networks\<close>

text \<open>
  The identities that the peer lists of a network mention. The network is finite and
  closed when this set is finite: peer lists stop referencing new identities.
\<close>

definition peer_ids :: "rpc \<Rightarrow> string set" where
  "peer_ids r = {i. \<exists>url p. p \<in> set (query_net_info r url) \<and> pe_id p = Some i}"

text \<open>
  From \<open>s\<close> to \<open>s'\<close> the stores of the command-line crawler have only grown: the keys
  and the visited addresses of \<open>s\<close> are kept, every new key is an identity of a peer
  list, and an entry of the registry of \<open>s'\<close> is an entry of \<open>s\<close> or has a new key.
\<close>

definition cli_grows :: "rpc \<Rightarrow> cli_state \<Rightarrow> cli_state \<Rightarrow> bool" where
  "cli_grows r s s' =
     (fst ` set (discovered_peers s) \<subseteq> fst ` set (discovered_peers s')
      \<and> fst ` set (discovered_peers s') \<subseteq> fst ` set (discovered_peers s) \<union> peer_ids r
      \<and> visited_rpcs s \<subseteq> visited_rpcs s'
      \<and> (\<forall>e \<in> set (discovered_peers s').
            e \<in> set (discovered_peers s) \<or> fst e \<notin> fst ` set (discovered_peers s)))"



subsection \<open>The head of \<^verbatim>\<open>discover_from_node\<close> under the thread pool\<close>

text \<open>
  The crawl loop hands its tasks to a \<^verbatim>\<open>ThreadPoolExecutor\<close>. The head of
  \<^verbatim>\<open>discover_from_node\<close> is three statements, none of them under a lock:
  \<^verbatim>\<open>if rpc_url in visited_rpcs: return []\<close>, then \<^verbatim>\<open>visited_rpcs.add(rpc_url)\<close>, then
  \<^verbatim>\<open>peers = query_net_info(rpc_url)\<close>. A worker is at one of them or has gone past the
  query; the pool may switch between workers after any statement. The list
  \<open>p_queried\<close> records the addresses handed to \<^verbatim>\<open>query_net_info\<close>, in order.
\<close>

datatype pc = AtCheck | AtMark | AtQuery | Queried | Returned

record worker =
  w_url :: string
  w_pc :: pc

record pool =
  p_visited :: "string set"
  p_queried :: "string list"
  p_workers :: "worker list"

text \<open>Worker \<open>i\<close> runs its next statement.\<close>

definition worker_step :: "nat \<Rightarrow> pool \<Rightarrow> pool" where
  "worker_step i c =
     (if i < length (p_workers c) then
        let w = p_workers c ! i in
        case w_pc w of
          AtCheck \<Rightarrow>
            c\<lparr>p_workers := (p_workers c)
                 [i := w\<lparr>w_pc := (if w_url w \<in> p_visited c then Returned else AtMark)\<rparr>]\<rparr>
        | AtMark \<Rightarrow>
            c\<lparr>p_visited := insert (w_url w) (p_visited c),
              p_workers := (p_workers c)[i := w\<lparr>w_pc := AtQuery\<rparr>]\<rparr>
        | AtQuery \<Rightarrow>
            c\<lparr>p_queried := p_queried c @ [w_url w],
              p_workers := (p_workers c)[i := w\<lparr>w_pc := Queried\<rparr>]\<rparr>
        | Queried \<Rightarrow> c
        | Returned \<Rightarrow> c
      else c)"

text \<open>A schedule names the worker that runs next, statement by statement.\<close>

definition run_schedule :: "nat list \<Rightarrow> pool \<Rightarrow> pool" where
  "run_schedule sch c = fold worker_step sch c"

text \<open>One worker per task of the frontier, all before their first statement.\<close>

definition dispatch :: "cli_state \<Rightarrow> pool" where
  "dispatch s =
     \<lparr>p_visited = visited_rpcs s, p_queried = [],
      p_workers = map (\<lambda>(pid, url). \<lparr>w_url = url, w_pc = AtCheck\<rparr>) (peers_to_query s)\<rparr>"

text \<open>
  A registry with two identities behind one address, as the peer list
  \<open>[n4 at 198.51.100.7, n5 at 198.51.100.7]\<close> leaves it.
\<close>

definition shared_address_state :: cli_state where
  "shared_address_state =
     process_peers []
       [\<lparr>pe_id = Some ''n4'', pe_remote_ip = Some ''198.51.100.7'',
         pe_moniker = Some ''acme-on-04'', pe_version = Some ''0.34.24''\<rparr>,
        \<lparr>pe_id = Some ''n5'', pe_remote_ip = Some ''198.51.100.7'',
         pe_moniker = Some ''acme-on-05'', pe_version = Some ''0.34.24''\<rparr>]
       cli_init"

section \<open>Properties\<close>

subsection \<open>The private-address filter\<close>

lemma startswith_append: "startswith s p \<longleftrightarrow> (\<exists>t. s = p @ t)"
  by (induction s p rule: startswith.induct) auto

text \<open>Every address with one of the listed prefixes is filtered out.\<close>

lemma has_private_prefix_excluded: "has_private_prefix addr \<Longrightarrow> is_private_ip addr"
  unfolding has_private_prefix_def private_prefixes_def is_private_ip_def
  by (auto simp: startswith_append)

text \<open>
  Claim C4. The filter should exclude an address exactly when it begins with \<open>10.\<close>,
  \<open>172.16.\<close> to \<open>172.31.\<close>, \<open>192.168.\<close> or \<open>127.\<close>. The source tests the prefix
  \<open>172.2\<close> where \<open>172.20.\<close> to \<open>172.29.\<close> are meant, so the public address
  \<open>172.200.1.1\<close>, which has none of the listed prefixes, is excluded as well.
\<close>

theorem is_private_ip_172_200:
  "is_private_ip ''172.200.1.1'' \<and> \<not> has_private_prefix ''172.200.1.1''"
  by (simp add: is_private_ip_def has_private_prefix_def private_prefixes_def)

subsection \<open>The edge store\<close>

lemma edge_key_commute: "edge_key a b = edge_key b a"
  by (auto simp: edge_key_def)

lemma add_edge_present: "edge_key a b \<in> edge_set s \<Longrightarrow> add_edge a b s = s"
  by (simp add: add_edge_def)

lemma add_edge_absent:
  "edge_key a b \<notin> edge_set s \<Longrightarrow>
     add_edge a b s = s\<lparr>edge_set := insert (edge_key a b) (edge_set s),
                        edges := edges s @ [\<lparr>source = a, target = b\<rparr>]\<rparr>"
  by (simp add: add_edge_def)

lemma pn_add_edge_present: "edge_key a b \<in> pn_edge_set s \<Longrightarrow> pn_add_edge a b s = s"
  by (simp add: pn_add_edge_def)

lemma pn_add_edge_absent:
  "edge_key a b \<notin> pn_edge_set s \<Longrightarrow>
     pn_add_edge a b s =
       s\<lparr>pn_edge_set := insert (edge_key a b) (pn_edge_set s),
         pn_edges := pn_edges s @ [\<lparr>source = a, target = b\<rparr>],
         stats := (stats s)\<lparr>total_edges := Suc (length (pn_edges s))\<rparr>\<rparr>"
  by (simp add: pn_add_edge_def Let_def)

lemma process_peer_no_id: "\<not> truthy (pe_id p) \<Longrightarrow> process_peer src p s = s"
  by (cases "pe_id p") (auto simp: process_peer_def split: option.splits)

lemma process_peer_no_source: "edges (process_peer [] p s) = edges s"
  by (auto simp: process_peer_def Let_def split: option.splits)

lemma pn_process_peer_no_id: "\<not> truthy (pe_id p) \<Longrightarrow> pn_process_peer src p s = s"
  by (cases "pe_id p") (auto simp: pn_process_peer_def split: option.splits)

lemma add_node_edges [simp]: "pn_edges (add_node a b c d e f g h s) = pn_edges s"
  by (simp add: add_node_def Let_def split: option.splits)

lemma pn_process_peer_no_source: "pn_edges (pn_process_peer [] p s) = pn_edges s"
  by (auto simp: pn_process_peer_def Let_def split: option.splits)

text \<open>
  Claim C3, as stated: \<^verbatim>\<open>add_edge(A, B)\<close> changes nothing when \<open>A\<close> or \<open>B\<close> is empty or
  when \<open>A = B\<close>. It fails: on the empty store \<^verbatim>\<open>add_edge\<close> stores the self-loop of
  \<open>n1\<close>, and it stores an edge whose source is the empty string.
\<close>

theorem add_edge_self_loop_counterexample:
  "edges (add_edge ''n1'' ''n1'' cli_init) \<noteq> edges cli_init
   \<and> edges (add_edge [] ''n1'' cli_init) \<noteq> edges cli_init"
  by (simp add: add_edge_def cli_init_def edge_key_def)

text \<open>
  Claim C3, amended. In both programs \<^verbatim>\<open>add_edge(A, B)\<close> changes nothing exactly when
  the canonical sorted pair is already recorded (the pair of \<open>(A, B)\<close> and of \<open>(B, A)\<close>
  is the same); otherwise it appends exactly one edge with source \<open>A\<close> and target \<open>B\<close>
  and records the canonical key, whatever \<open>A\<close> and \<open>B\<close> are, and touches no other
  store. Empty identities are kept out by the caller: \<^verbatim>\<open>discover_from_node\<close> skips a
  peer entry without identity, and adds no edge for an empty source.
\<close>

theorem add_edge_noop_iff_key_present:
  "(add_edge a b s = s \<longleftrightarrow> edge_key b a \<in> edge_set s)
   \<and> (edge_key b a \<notin> edge_set s \<longrightarrow>
        edges (add_edge a b s) = edges s @ [\<lparr>source = a, target = b\<rparr>]
        \<and> edge_set (add_edge a b s) = insert (edge_key a b) (edge_set s)
        \<and> discovered_peers (add_edge a b s) = discovered_peers s
        \<and> visited_rpcs (add_edge a b s) = visited_rpcs s)
   \<and> (pn_add_edge a b t = t \<longleftrightarrow> edge_key b a \<in> pn_edge_set t)
   \<and> (edge_key b a \<notin> pn_edge_set t \<longrightarrow>
        pn_edges (pn_add_edge a b t) = pn_edges t @ [\<lparr>source = a, target = b\<rparr>]
        \<and> pn_edge_set (pn_add_edge a b t) = insert (edge_key a b) (pn_edge_set t)
        \<and> nodes (pn_add_edge a b t) = nodes t
        \<and> pn_visited_rpcs (pn_add_edge a b t) = pn_visited_rpcs t)
   \<and> (\<not> truthy (pe_id p) \<longrightarrow> process_peer a p s = s \<and> pn_process_peer a p t = t)
   \<and> edges (process_peer [] p s) = edges s
   \<and> pn_edges (pn_process_peer [] p t) = pn_edges t"
proof -
  have k: "edge_key b a = edge_key a b" by (rule edge_key_commute)
  have 1: "add_edge a b s = s \<longleftrightarrow> edge_key b a \<in> edge_set s"
  proof
    assume eq: "add_edge a b s = s"
    show "edge_key b a \<in> edge_set s"
    proof (rule ccontr)
      assume "edge_key b a \<notin> edge_set s"
      then have "edges (add_edge a b s) = edges s @ [\<lparr>source = a, target = b\<rparr>]"
        by (simp add: k add_edge_absent)
      with eq show False by simp
    qed
  next
    assume "edge_key b a \<in> edge_set s"
    then show "add_edge a b s = s" by (simp add: k add_edge_present)
  qed
  have 2: "pn_add_edge a b t = t \<longleftrightarrow> edge_key b a \<in> pn_edge_set t"
  proof
    assume eq: "pn_add_edge a b t = t"
    show "edge_key b a \<in> pn_edge_set t"
    proof (rule ccontr)
      assume "edge_key b a \<notin> pn_edge_set t"
      then have "pn_edges (pn_add_edge a b t) = pn_edges t @ [\<lparr>source = a, target = b\<rparr>]"
        by (simp add: k pn_add_edge_absent)
      with eq show False by simp
    qed
  next
    assume "edge_key b a \<in> pn_edge_set t"
    then show "pn_add_edge a b t = t" by (simp add: k pn_add_edge_present)
  qed
  show ?thesis
    using 1 2 process_peer_no_id [of p a s] pn_process_peer_no_id [of p a t]
      process_peer_no_source [of p s] pn_process_peer_no_source [of p t]
    by (simp add: k add_edge_absent pn_add_edge_absent)
qed

theorem add_edge_noop_iff_key_present_witness:
  "edges (add_edge ''n2'' ''n1'' cli_init) = [\<lparr>source = ''n2'', target = ''n1''\<rparr>]
   \<and> edge_set (add_edge ''n2'' ''n1'' cli_init) = {(''n1'', ''n2'')}
   \<and> pn_edges (pn_add_edge ''n2'' ''n1'' pn_init) = [\<lparr>source = ''n2'', target = ''n1''\<rparr>]
   \<and> add_edge ''n1'' ''n2'' (add_edge ''n2'' ''n1'' cli_init) = add_edge ''n2'' ''n1'' cli_init"
  using
    add_edge_noop_iff_key_present
      [of "''n2''" "''n1''" cli_init pn_init
          "\<lparr>pe_id = None, pe_remote_ip = None, pe_moniker = None, pe_version = None\<rparr>"]
    add_edge_noop_iff_key_present
      [of "''n1''" "''n2''" "add_edge ''n2'' ''n1'' cli_init" pn_init
          "\<lparr>pe_id = None, pe_remote_ip = None, pe_moniker = None, pe_version = None\<rparr>"]
  by (simp add: cli_init_def pn_init_def edge_key_def)

lemma count_key_once:
  "distinct (map f xs) \<Longrightarrow> k \<in> f ` set xs \<Longrightarrow> length (filter (\<lambda>e. f e = k) xs) = 1"
proof (induction xs)
  case Nil
  then show ?case by simp
next
  case (Cons x xs)
  show ?case
  proof (cases "f x = k")
    case True
    with Cons.prems have "k \<notin> f ` set xs" by auto
    then have "filter (\<lambda>e. f e = k) xs = []" by (auto simp: filter_empty_conv)
    with True show ?thesis by simp
  next
    case False
    with Cons show ?thesis by auto
  qed
qed

lemma add_edge_consistent: "edges_consistent s \<Longrightarrow> edges_consistent (add_edge a b s)"
  by (auto simp: edges_consistent_def add_edge_def Let_def edge_key_of_def)

lemma pn_add_edge_consistent:
  "pn_edges_consistent t \<Longrightarrow> pn_edges_consistent (pn_add_edge a b t)"
  by (auto simp: pn_edges_consistent_def pn_add_edge_def Let_def edge_key_of_def)

lemma add_edge_key_recorded: "edge_key a b \<in> edge_set (add_edge a b s)"
  by (simp add: add_edge_def Let_def)

lemma pn_add_edge_key_recorded: "edge_key a b \<in> pn_edge_set (pn_add_edge a b t)"
  by (simp add: pn_add_edge_def Let_def)

lemma add_edge_again: "add_edge b a (add_edge a b s) = add_edge a b s"
  "add_edge a b (add_edge a b s) = add_edge a b s"
  using add_edge_key_recorded [of a b s]
  by (simp_all add: add_edge_present edge_key_commute [of b a])

lemma pn_add_edge_again: "pn_add_edge b a (pn_add_edge a b t) = pn_add_edge a b t"
  "pn_add_edge a b (pn_add_edge a b t) = pn_add_edge a b t"
  using pn_add_edge_key_recorded [of a b t]
  by (simp_all add: pn_add_edge_present edge_key_commute [of b a])

lemma add_edge_one_entry:
  assumes "edges_consistent s"
  shows "length (filter (\<lambda>e. edge_key_of e = edge_key a b) (edges (add_edge a b s))) = 1"
proof -
  have c: "edges_consistent (add_edge a b s)" using assms by (rule add_edge_consistent)
  have "edge_key a b \<in> edge_key_of ` set (edges (add_edge a b s))"
    using c add_edge_key_recorded [of a b s] by (simp add: edges_consistent_def)
  with c show ?thesis by (simp add: edges_consistent_def count_key_once)
qed

lemma pn_add_edge_one_entry:
  assumes "pn_edges_consistent t"
  shows "length (filter (\<lambda>e. edge_key_of e = edge_key a b) (pn_edges (pn_add_edge a b t))) = 1"
proof -
  have c: "pn_edges_consistent (pn_add_edge a b t)"
    using assms by (rule pn_add_edge_consistent)
  have "edge_key a b \<in> edge_key_of ` set (pn_edges (pn_add_edge a b t))"
    using c pn_add_edge_key_recorded [of a b t] by (simp add: pn_edges_consistent_def)
  with c show ?thesis by (simp add: pn_edges_consistent_def count_key_once)
qed

text \<open>
  Claim C7. On a store in which the deduplication set holds the keys of the stored
  edges, each once (it does on the empty store, and \<^verbatim>\<open>add_edge\<close> keeps it so), calling
  \<^verbatim>\<open>add_edge\<close> twice with the same pair, in the same order or swapped, leaves exactly one
  edge entry for that pair: the second call changes nothing. This holds in both
  programs, and also when the two identities are equal.
\<close>

theorem add_edge_twice_one_entry:
  assumes "edges_consistent s" and "pn_edges_consistent t"
  shows "length (filter (\<lambda>e. edge_key_of e = edge_key a b)
                   (edges (add_edge a b (add_edge a b s)))) = 1
       \<and> length (filter (\<lambda>e. edge_key_of e = edge_key a b)
                   (edges (add_edge b a (add_edge a b s)))) = 1
       \<and> length (filter (\<lambda>e. edge_key_of e = edge_key a b)
                   (pn_edges (pn_add_edge a b (pn_add_edge a b t)))) = 1
       \<and> length (filter (\<lambda>e. edge_key_of e = edge_key a b)
                   (pn_edges (pn_add_edge b a (pn_add_edge a b t)))) = 1
       \<and> add_edge a b (add_edge a b s) = add_edge a b s
       \<and> add_edge b a (add_edge a b s) = add_edge a b s
       \<and> pn_add_edge a b (pn_add_edge a b t) = pn_add_edge a b t
       \<and> pn_add_edge b a (pn_add_edge a b t) = pn_add_edge a b t
       \<and> edges_consistent (add_edge a b s) \<and> pn_edges_consistent (pn_add_edge a b t)"
  using add_edge_one_entry [OF assms(1), of a b] pn_add_edge_one_entry [OF assms(2), of a b]
    add_edge_consistent [OF assms(1), of a b] pn_add_edge_consistent [OF assms(2), of a b]
  by (simp add: add_edge_again pn_add_edge_again)

lemma cli_init_consistent: "edges_consistent cli_init"
  by (simp add: edges_consistent_def cli_init_def)

lemma pn_init_consistent: "pn_edges_consistent pn_init"
  by (simp add: pn_edges_consistent_def pn_init_def)

theorem add_edge_twice_one_entry_witness:
  "edges_consistent cli_init \<and> pn_edges_consistent pn_init
   \<and> edges (add_edge ''n1'' ''n2'' (add_edge ''n2'' ''n1'' cli_init))
       = [\<lparr>source = ''n2'', target = ''n1''\<rparr>]
   \<and> pn_edges (pn_add_edge ''n1'' ''n2'' (pn_add_edge ''n2'' ''n1'' pn_init))
       = [\<lparr>source = ''n2'', target = ''n1''\<rparr>]
   \<and> length (filter (\<lambda>e. edge_key_of e = (''n1'', ''n2''))
               (edges (add_edge ''n1'' ''n2'' (add_edge ''n2'' ''n1'' cli_init)))) = 1"
  using add_edge_twice_one_entry [OF cli_init_consistent pn_init_consistent, of "''n2''" "''n1''"]
  by (simp add: edges_consistent_def pn_edges_consistent_def edge_key_of_def
      add_edge_def pn_add_edge_def cli_init_def pn_init_def edge_key_def)


subsection \<open>The published counters\<close>

lemma update_length_present:
  "map_of al k = Some x \<Longrightarrow> length (AList.update k v al) = length al"
  by (induction al) (auto split: if_splits)

lemma update_keys_present:
  "map_of al k = Some x \<Longrightarrow> map fst (AList.update k v al) = map fst al"
  by (simp add: AList.update_keys map_of_eq_None_iff [symmetric] del: map_of_eq_None_iff)

lemma add_node_stats_ok: "stats_ok t \<Longrightarrow> stats_ok (add_node pid i p m v ra dv h t)"
  by (simp add: stats_ok_def add_node_def Let_def update_length_present split: option.splits)

lemma pn_add_edge_stats_ok: "stats_ok t \<Longrightarrow> stats_ok (pn_add_edge a b t)"
  by (simp add: stats_ok_def pn_add_edge_def Let_def)

lemma reset_stats_ok: "stats_ok (reset t)"
  by (simp add: stats_ok_def reset_def)

lemma pn_init_stats_ok: "stats_ok pn_init"
  by (simp add: stats_ok_def pn_init_def)

text \<open>
  Claim C9. In the web server the counters \<open>total_nodes\<close> and \<open>total_edges\<close> agree
  with the registry and the edge list at the start, after the reset that opens a run,
  and after every \<^verbatim>\<open>add_node\<close> and every \<^verbatim>\<open>add_edge\<close> on a state in which they agree.
\<close>

theorem stats_follow_stores:
  "stats_ok pn_init \<and> stats_ok (reset t0)
   \<and> (stats_ok t \<longrightarrow>
        stats_ok (add_node peer_id i p m v ra dv h t) \<and> stats_ok (pn_add_edge a b t))"
  by (simp add: pn_init_stats_ok reset_stats_ok add_node_stats_ok pn_add_edge_stats_ok)

theorem stats_follow_stores_witness:
  "stats_ok pn_init
   \<and> stats (pn_add_edge ''n1'' ''n2''
        (add_node ''n2'' ''5.6.7.8'' 26656 ''b'' None False None None
          (add_node ''n1'' ''1.2.3.4'' 26656 ''a'' None False None None pn_init)))
       = \<lparr>total_nodes = 2, total_edges = 1, accessible_rpc = 0\<rparr>
   \<and> stats_ok (pn_add_edge ''n1'' ''n2''
        (add_node ''n2'' ''5.6.7.8'' 26656 ''b'' None False None None
          (add_node ''n1'' ''1.2.3.4'' 26656 ''a'' None False None None pn_init)))"
proof -
  let ?t1 = "add_node ''n1'' ''1.2.3.4'' 26656 ''a'' None False None None pn_init"
  let ?t2 = "add_node ''n2'' ''5.6.7.8'' 26656 ''b'' None False None None ?t1"
  have 0: "stats_ok pn_init" using stats_follow_stores [of pn_init pn_init] by simp
  have 1: "stats_ok ?t1"
    using 0 stats_follow_stores [of pn_init pn_init "''n1''" "''1.2.3.4''" 26656 "''a''" None False None None]
    by simp
  have 2: "stats_ok ?t2"
    using 1 stats_follow_stores [of pn_init ?t1 "''n2''" "''5.6.7.8''" 26656 "''b''" None False None None]
    by simp
  have 3: "stats_ok (pn_add_edge ''n1'' ''n2'' ?t2)"
    using 2 stats_follow_stores [of pn_init ?t2 _ _ _ _ _ _ _ _ "''n1''" "''n2''"] by simp
  have 4: "stats (pn_add_edge ''n1'' ''n2'' ?t2)
             = \<lparr>total_nodes = 2, total_edges = 1, accessible_rpc = 0\<rparr>"
    by (simp add: add_node_def pn_add_edge_def pn_init_def edge_key_def Let_def)
  from 0 3 4 show ?thesis by simp
qed

subsection \<open>Edges join registered nodes\<close>

lemma map_of_keys: "map_of al k \<noteq> None \<longleftrightarrow> k \<in> fst ` set al"
  by (simp add: map_of_eq_None_iff)

lemma add_edge_peers [simp]: "discovered_peers (add_edge a b s) = discovered_peers s"
  by (simp add: add_edge_def Let_def)

lemma add_edge_visited [simp]: "visited_rpcs (add_edge a b s) = visited_rpcs s"
  by (simp add: add_edge_def Let_def)

lemma add_edge_closed:
  "\<lbrakk>edges_closed s; a \<in> fst ` set (discovered_peers s); b \<in> fst ` set (discovered_peers s)\<rbrakk>
   \<Longrightarrow> edges_closed (add_edge a b s)"
  by (auto simp: edges_closed_def add_edge_def Let_def)

lemma edges_closed_more_peers:
  "\<lbrakk>edges_closed s; edges s' = edges s;
    fst ` set (discovered_peers s) \<subseteq> fst ` set (discovered_peers s')\<rbrakk>
   \<Longrightarrow> edges_closed s'"
  by (auto simp: edges_closed_def)

lemma process_peer_cases:
  obtains (skip) "process_peer src p s = s"
  | (accept) i a where "pe_id p = Some i" "pe_remote_ip p = Some a" "i \<noteq> []" "a \<noteq> []"
      "\<not> is_private_ip a"
      "process_peer src p s =
         (let s1 = (if map_of (discovered_peers s) i = None
                    then s\<lparr>discovered_peers :=
                             AList.update i (new_peer i a p) (discovered_peers s)\<rparr>
                    else s)
          in if src \<noteq> [] then add_edge src i s1 else s1)"
proof (cases "pe_id p")
  case None
  then have "process_peer src p s = s" by (simp add: process_peer_def)
  then show ?thesis by (rule skip)
next
  case (Some i)
  note i = this
  show ?thesis
  proof (cases "pe_remote_ip p")
    case None
    with i have "process_peer src p s = s" by (simp add: process_peer_def)
    then show ?thesis by (rule skip)
  next
    case (Some a)
    show ?thesis
    proof (cases "i = [] \<or> a = [] \<or> is_private_ip a")
      case True
      with i Some have "process_peer src p s = s" by (auto simp: process_peer_def)
      then show ?thesis by (rule skip)
    next
      case False
      with i Some show ?thesis by (intro accept [of i a]) (simp_all add: process_peer_def)
    qed
  qed
qed

lemma process_peer_keys:
  "fst ` set (discovered_peers s) \<subseteq> fst ` set (discovered_peers (process_peer src p s))"
proof (cases rule: process_peer_cases [of src p s])
  case skip
  then show ?thesis by simp
next
  case (accept i a)
  show ?thesis unfolding accept(6) by (auto simp: Let_def AList.dom_update)
qed

lemma process_peer_closed:
  assumes "edges_closed s" and "src \<in> fst ` set (discovered_peers s)"
  shows "edges_closed (process_peer src p s)"
proof (cases rule: process_peer_cases [of src p s])
  case skip
  with assms show ?thesis by simp
next
  case (accept peer_id remote_ip)
  define s1 where "s1 = (if map_of (discovered_peers s) peer_id = None
                      then s\<lparr>discovered_peers :=
                               AList.update peer_id (new_peer peer_id remote_ip p)
                                 (discovered_peers s)\<rparr>
                      else s)"
  have k: "fst ` set (discovered_peers s) \<subseteq> fst ` set (discovered_peers s1)"
    by (auto simp: s1_def AList.dom_update)
  have e: "edges s1 = edges s" by (simp add: s1_def)
  have c1: "edges_closed s1" using assms(1) e k by (rule edges_closed_more_peers)
  have pk: "peer_id \<in> fst ` set (discovered_peers s1)"
    by (cases "map_of (discovered_peers s) peer_id = None")
       (simp_all add: s1_def AList.dom_update map_of_eq_None_iff)
  have sk: "src \<in> fst ` set (discovered_peers s1)" using assms(2) k by blast
  have r: "process_peer src p s = (if src \<noteq> [] then add_edge src peer_id s1 else s1)"
    unfolding accept(6) s1_def by (simp add: Let_def)
  show ?thesis using c1 pk sk by (simp add: r add_edge_closed)
qed

lemma process_peers_closed:
  "\<lbrakk>edges_closed s; src \<in> fst ` set (discovered_peers s)\<rbrakk>
   \<Longrightarrow> edges_closed (process_peers src ps s)
       \<and> fst ` set (discovered_peers s) \<subseteq> fst ` set (discovered_peers (process_peers src ps s))"
proof (induction ps arbitrary: s)
  case Nil
  then show ?case by (simp add: process_peers_def)
next
  case (Cons p ps)
  have c: "edges_closed (process_peer src p s)"
    using Cons.prems by (rule process_peer_closed)
  have k: "fst ` set (discovered_peers s) \<subseteq> fst ` set (discovered_peers (process_peer src p s))"
    by (rule process_peer_keys)
  with Cons.prems have m: "src \<in> fst ` set (discovered_peers (process_peer src p s))" by blast
  from Cons.IH [OF c m] k show ?case by (auto simp: process_peers_def)
qed

lemma discover_upto_closed:
  assumes "edges_closed s" and "src \<in> fst ` set (discovered_peers s)"
  shows "edges_closed (discover_upto k r src url s)"
proof (cases "url \<in> visited_rpcs s")
  case True
  with assms show ?thesis by (simp add: discover_upto_def)
next
  case False
  let ?s = "s\<lparr>visited_rpcs := insert url (visited_rpcs s)\<rparr>"
  have "edges_closed ?s" using assms(1) by (simp add: edges_closed_def)
  moreover have "src \<in> fst ` set (discovered_peers ?s)" using assms(2) by simp
  ultimately have "edges_closed (process_peers src (take k (query_net_info r url)) ?s)"
    using process_peers_closed by blast
  with False show ?thesis by (simp add: discover_upto_def)
qed

lemma store_seed_closed:
  "edges_closed s \<Longrightarrow> edges_closed (store_seed seed seed_id m st dcl s)"
  by (rule edges_closed_more_peers [where s = s])
     (auto simp: store_seed_def AList.dom_update)

lemma store_seed_key: "seed_id \<in> fst ` set (discovered_peers (store_seed seed seed_id m st dcl s))"
  by (simp add: store_seed_def AList.dom_update)

lemma cli_step_closed: "cli_step s s' \<Longrightarrow> edges_closed s \<Longrightarrow> edges_closed s'"
proof (induction rule: cli_step.induct)
  case (seed_stored r seed st seed_id moniker' s)
  then show ?case by (simp add: store_seed_closed)
next
  case (seed_discover r seed st seed_id moniker' s k)
  then show ?case by (simp add: discover_upto_closed store_seed_closed store_seed_key)
next
  case (task s pid p k r)
  then have "pid \<in> fst ` set (discovered_peers s)" by (force dest: map_of_SomeD)
  with task show ?case by (simp add: discover_upto_closed)
next
  case (checked s pid p r)
  then show ?case
    by (auto simp: edges_closed_def AList.dom_update)
qed

lemma cli_init_closed: "edges_closed cli_init"
  by (simp add: edges_closed_def cli_init_def)

lemma cli_reach_closed: "cli_reach s \<Longrightarrow> edges_closed s"
  unfolding cli_reach_def
  by (induction rule: rtranclp_induct) (simp_all add: cli_init_closed cli_step_closed)

lemma add_node_keys:
  "fst ` set (nodes (add_node pid i p m v ra dv h t)) = insert pid (fst ` set (nodes t))"
  by (cases "map_of (nodes t) pid")
     (simp_all add: add_node_def Let_def AList.dom_update)

lemma pn_add_edge_nodes [simp]: "nodes (pn_add_edge a b t) = nodes t"
  by (simp add: pn_add_edge_def Let_def)

lemma pn_add_edge_visited [simp]: "pn_visited_rpcs (pn_add_edge a b t) = pn_visited_rpcs t"
  by (simp add: pn_add_edge_def Let_def)

lemma pn_add_edge_closed:
  "\<lbrakk>pn_edges_closed t; a \<in> fst ` set (nodes t); b \<in> fst ` set (nodes t)\<rbrakk>
   \<Longrightarrow> pn_edges_closed (pn_add_edge a b t)"
  by (auto simp: pn_edges_closed_def pn_add_edge_def Let_def)

lemma pn_edges_closed_more_nodes:
  "\<lbrakk>pn_edges_closed t; pn_edges t' = pn_edges t; fst ` set (nodes t) \<subseteq> fst ` set (nodes t')\<rbrakk>
   \<Longrightarrow> pn_edges_closed t'"
  by (auto simp: pn_edges_closed_def)

lemma pn_process_peer_cases:
  obtains (skip) "pn_process_peer src p t = t"
  | (accept) i a where "pe_id p = Some i" "pe_remote_ip p = Some a" "i \<noteq> []" "a \<noteq> []"
      "\<not> is_private_ip a"
      "pn_process_peer src p t =
         (let t1 = add_node i a 26656 (get_default (pe_moniker p) ''unknown'')
                     (Some (get_default (pe_version p) ''unknown'')) False None None t
          in if src \<noteq> [] then pn_add_edge src i t1 else t1)"
proof (cases "pe_id p")
  case None
  then have "pn_process_peer src p t = t" by (simp add: pn_process_peer_def)
  then show ?thesis by (rule skip)
next
  case (Some i)
  note i = this
  show ?thesis
  proof (cases "pe_remote_ip p")
    case None
    with i have "pn_process_peer src p t = t" by (simp add: pn_process_peer_def)
    then show ?thesis by (rule skip)
  next
    case (Some a)
    show ?thesis
    proof (cases "i = [] \<or> a = [] \<or> is_private_ip a")
      case True
      with i Some have "pn_process_peer src p t = t" by (auto simp: pn_process_peer_def)
      then show ?thesis by (rule skip)
    next
      case False
      with i Some show ?thesis by (intro accept [of i a]) (simp_all add: pn_process_peer_def)
    qed
  qed
qed

lemma pn_process_peer_keys:
  "fst ` set (nodes t) \<subseteq> fst ` set (nodes (pn_process_peer src p t))"
proof (cases rule: pn_process_peer_cases [of src p t])
  case skip
  then show ?thesis by simp
next
  case (accept i a)
  show ?thesis unfolding accept(6) by (auto simp: Let_def add_node_keys)
qed

lemma pn_process_peer_closed:
  assumes "pn_edges_closed t" and "src \<in> fst ` set (nodes t)"
  shows "pn_edges_closed (pn_process_peer src p t)"
proof (cases rule: pn_process_peer_cases [of src p t])
  case skip
  with assms show ?thesis by simp
next
  case (accept i a)
  define t1 where "t1 = add_node i a 26656 (get_default (pe_moniker p) ''unknown'')
                     (Some (get_default (pe_version p) ''unknown'')) False None None t"
  have k: "fst ` set (nodes t1) = insert i (fst ` set (nodes t))"
    by (simp add: t1_def add_node_keys)
  have e: "pn_edges t1 = pn_edges t" by (simp add: t1_def)
  have c1: "pn_edges_closed t1"
    using assms(1) e by (rule pn_edges_closed_more_nodes) (auto simp: k)
  have r: "pn_process_peer src p t = (if src \<noteq> [] then pn_add_edge src i t1 else t1)"
    unfolding accept(6) t1_def by (simp add: Let_def)
  show ?thesis using c1 assms(2) by (simp add: r pn_add_edge_closed k)
qed

lemma pn_process_peers_closed:
  "\<lbrakk>pn_edges_closed t; src \<in> fst ` set (nodes t)\<rbrakk>
   \<Longrightarrow> pn_edges_closed (pn_process_peers src ps t)
       \<and> fst ` set (nodes t) \<subseteq> fst ` set (nodes (pn_process_peers src ps t))"
proof (induction ps arbitrary: t)
  case Nil
  then show ?case by (simp add: pn_process_peers_def)
next
  case (Cons p ps)
  have c: "pn_edges_closed (pn_process_peer src p t)"
    using Cons.prems by (rule pn_process_peer_closed)
  have k: "fst ` set (nodes t) \<subseteq> fst ` set (nodes (pn_process_peer src p t))"
    by (rule pn_process_peer_keys)
  with Cons.prems have m: "src \<in> fst ` set (nodes (pn_process_peer src p t))" by blast
  from Cons.IH [OF c m] k show ?case by (auto simp: pn_process_peers_def)
qed

lemma pn_discover_upto_closed:
  assumes "pn_edges_closed t" and "src \<in> fst ` set (nodes t)"
  shows "pn_edges_closed (pn_discover_upto k r src url t)
       \<and> fst ` set (nodes t) \<subseteq> fst ` set (nodes (pn_discover_upto k r src url t))"
proof (cases "url \<in> pn_visited_rpcs t")
  case True
  with assms show ?thesis by (simp add: pn_discover_upto_def)
next
  case False
  let ?t = "t\<lparr>pn_visited_rpcs := insert url (pn_visited_rpcs t)\<rparr>"
  have "pn_edges_closed ?t" using assms(1) by (simp add: pn_edges_closed_def)
  moreover have "src \<in> fst ` set (nodes ?t)" using assms(2) by simp
  ultimately have "pn_edges_closed (pn_process_peers src (take k (query_net_info r url)) ?t)
    \<and> fst ` set (nodes ?t) \<subseteq> fst ` set (nodes (pn_process_peers src (take k (query_net_info r url)) ?t))"
    by (rule pn_process_peers_closed)
  with False show ?thesis by (simp add: pn_discover_upto_def)
qed

lemma pn_discover_whole:
  "pn_discover_from_node r src url t = pn_discover_upto (length (query_net_info r url)) r src url t"
  by (simp add: pn_discover_from_node_def pn_discover_upto_def)

lemma discover_whole:
  "discover_from_node r src url s = discover_upto (length (query_net_info r url)) r src url s"
  by (simp add: discover_from_node_def discover_upto_def)

lemma add_node_closed:
  "pn_edges_closed t \<Longrightarrow> pn_edges_closed (add_node pid i p m v ra dv h t)"
  by (rule pn_edges_closed_more_nodes [where t = t]) (auto simp: add_node_keys)

lemma refresh_node_keys:
  "fst ` set (nodes t) \<subseteq> fst ` set (nodes (refresh_node r pid info t))
   \<and> fst ` set (nodes (refresh_node r pid info t)) \<subseteq> insert pid (fst ` set (nodes t))"
proof (cases "query_status r (rpc_url info)")
  case None
  then show ?thesis by (auto simp: refresh_node_def)
next
  case (Some st)
  then have "fst ` set (nodes (refresh_node r pid info t)) = insert pid (fst ` set (nodes t))"
    by (simp add: refresh_node_def Let_def add_node_keys)
  then show ?thesis by blast
qed

lemma refresh_node_edges [simp]: "pn_edges (refresh_node r pid info t) = pn_edges t"
  by (cases "query_status r (rpc_url info)") (simp_all add: refresh_node_def Let_def)

lemma refresh_node_closed:
  "pn_edges_closed t \<Longrightarrow> pn_edges_closed (refresh_node r pid info t)"
  by (rule pn_edges_closed_more_nodes [where t = t]) (simp_all add: refresh_node_keys)

lemma map_entry_keys: "fst ` set (AList.map_entry k f al) = fst ` set al"
  by (induction al) auto

lemma mark_discovered_closed:
  "pn_edges_closed t \<Longrightarrow> pn_edges_closed (mark_discovered pid t)"
  by (rule pn_edges_closed_more_nodes [where t = t])
     (simp_all add: mark_discovered_def map_entry_keys)

lemma pn_seed_step_closed:
  assumes "pn_seed_step r seed t = Inr t'" and "pn_edges_closed t"
  shows "pn_edges_closed t'"
proof -
  obtain url m where seed: "seed = (url, m)" by (cases seed)
  show ?thesis
  proof (cases "\<exists>st seed_id ip'. query_status r url = Some st \<and> st_id st = Some seed_id
                  \<and> seed_id \<noteq> [] \<and> seed_ip url = Inr ip'")
    case False
    with assms(1) seed have "t' = t"
      by (auto simp: pn_seed_step_def Let_def split: option.splits if_splits sum.splits)
    with assms(2) show ?thesis by simp
  next
    case True
    then obtain st seed_id ip' where c: "query_status r url = Some st" "st_id st = Some seed_id"
      "seed_id \<noteq> []" "seed_ip url = Inr ip'" by blast
    let ?t1 = "add_node seed_id ip' 26656 m (st_version st) True
                 (query_abci_info r url) (st_height st) t"
    have t': "t' = mark_discovered seed_id (pn_discover_from_node r seed_id url ?t1)"
      using assms(1) seed c by (simp add: pn_seed_step_def Let_def)
    have 1: "pn_edges_closed ?t1" using assms(2) by (rule add_node_closed)
    have 2: "seed_id \<in> fst ` set (nodes ?t1)" by (simp add: add_node_keys)
    have "pn_edges_closed (pn_discover_from_node r seed_id url ?t1)"
      unfolding pn_discover_whole using pn_discover_upto_closed [OF 1 2] by blast
    then show ?thesis unfolding t' by (rule mark_discovered_closed)
  qed
qed

lemma worker_discover_closed:
  assumes "map_of (nodes t) pid = Some info" and "pn_edges_closed t"
  shows "pn_edges_closed (pn_discover_upto k r' pid url (refresh_node r pid info t))"
proof -
  have 1: "pn_edges_closed (refresh_node r pid info t)"
    using assms(2) by (rule refresh_node_closed)
  have "pid \<in> fst ` set (nodes t)" using assms(1) by (force dest: map_of_SomeD)
  then have 2: "pid \<in> fst ` set (nodes (refresh_node r pid info t))"
    using refresh_node_keys [of t r pid info] by blast
  show ?thesis using pn_discover_upto_closed [OF 1 2] by blast
qed

lemma crawl_worker_closed:
  assumes "pn_edges_closed t"
  shows "pn_edges_closed (crawl_worker r pid t)"
proof (cases "map_of (nodes t) pid")
  case None
  with assms show ?thesis by (simp add: crawl_worker_def)
next
  case (Some info)
  have "pn_edges_closed (pn_discover_from_node r pid (rpc_url info) (refresh_node r pid info t))"
    unfolding pn_discover_whole using Some assms by (rule worker_discover_closed)
  then show ?thesis using Some by (simp add: crawl_worker_def Let_def mark_discovered_closed)
qed

lemma pn_step_closed: "pn_step t t' \<Longrightarrow> pn_edges_closed t \<Longrightarrow> pn_edges_closed t'"
proof (induction rule: pn_step.induct)
  case (seed_added r url st seed_id ip' s moniker')
  then show ?case by (simp add: add_node_closed)
next
  case (seed_discovering r url st seed_id ip' s k moniker')
  then show ?case
    using pn_discover_upto_closed [where src = seed_id] by (simp add: add_node_closed add_node_keys)
next
  case (seed_done r seed s s')
  then show ?case by (simp add: pn_seed_step_closed)
next
  case (worker_refreshed s pid p r)
  then show ?case by (simp add: refresh_node_closed)
next
  case (worker_discovering s pid p k r)
  then show ?case by (simp add: worker_discover_closed)
next
  case (worker_done s r pid)
  then show ?case by (simp add: crawl_worker_closed)
next
  case (completed s)
  then show ?case by (simp add: pn_edges_closed_def)
qed

lemma reset_closed: "pn_edges_closed (reset t)"
  by (simp add: pn_edges_closed_def reset_def)

lemma pn_reach_closed: "pn_reach t \<Longrightarrow> pn_edges_closed t"
proof -
  assume "pn_reach t"
  then obtain t0 where "pn_step\<^sup>*\<^sup>* (reset t0) t" unfolding pn_reach_def by blast
  then show ?thesis
    by (induction rule: rtranclp_induct) (simp_all add: reset_closed pn_step_closed)
qed

text \<open>
  Claim C10. At every point of a run, of the command-line crawler and of the web
  crawler alike, both ends of every stored edge are keys of the node registry. A
  point of a run is a state reached by the steps \<open>cli_step\<close> (from the empty stores)
  or \<open>pn_step\<close> (from the reset that opens \<^verbatim>\<open>start_discovery\<close>), which stop
  \<^verbatim>\<open>discover_from_node\<close> after any number of peer entries.
\<close>

theorem edge_endpoints_registered:
  "(cli_reach s \<longrightarrow> edges_closed s) \<and> (pn_reach t \<longrightarrow> pn_edges_closed t)"
  by (simp add: cli_reach_closed pn_reach_closed)

lemma demo_cli_point_reach: "cli_reach demo_cli_point"
proof -
  have st: "query_status demo_rpc ''http://198.51.100.1:26657'' = Some (demo_status ''n1'')"
    by (simp add: demo_rpc_def)
  show ?thesis
    unfolding cli_reach_def demo_cli_point_def
    by (rule r_into_rtranclp, rule cli_step.seed_discover [OF st])
       (simp_all add: demo_status_def)
qed

lemma demo_cli_point_edges: "edges demo_cli_point = [\<lparr>source = ''n1'', target = ''n3''\<rparr>]"
  unfolding demo_cli_point_def
  by (simp add: discover_upto_def store_seed_def cli_init_def demo_rpc_def demo_peer_def
      process_peers_def process_peer_def is_private_ip_def add_edge_def edge_key_def Let_def)

lemma demo_pn_seeded_step: "pn_step (reset pn_init) demo_pn_seeded"
  unfolding demo_pn_seeded_def
  by (rule pn_step.seed_added [where r = demo_rpc and url = "''http://198.51.100.1:26657''"])
     (simp_all add: demo_rpc_def demo_status_def seed_ip_def split_first_def)

lemma demo_pn_point_reach: "pn_reach demo_pn_point"
  unfolding pn_reach_def demo_pn_point_def
proof -
  have "pn_step\<^sup>*\<^sup>* (reset pn_init) demo_pn_seeded"
    using demo_pn_seeded_step by (rule r_into_rtranclp)
  moreover have "pn_step demo_pn_seeded (crawl_worker demo_rpc ''n1'' demo_pn_seeded)"
    by (rule pn_step.worker_done)
  ultimately have "pn_step\<^sup>*\<^sup>* (reset pn_init) (crawl_worker demo_rpc ''n1'' demo_pn_seeded)"
    by (rule rtranclp.rtrancl_into_rtrancl)
  then show "\<exists>s0. pn_step\<^sup>*\<^sup>* (reset s0) (crawl_worker demo_rpc ''n1'' demo_pn_seeded)"
    by (rule exI)
qed

lemma demo_pn_point_edges: "pn_edges demo_pn_point = [\<lparr>source = ''n1'', target = ''n3''\<rparr>]"
  unfolding demo_pn_point_def demo_pn_seeded_def
  by (simp add: crawl_worker_def refresh_node_def add_node_def reset_def pn_init_def
      demo_rpc_def demo_status_def demo_peer_def mark_discovered_def
      pn_discover_from_node_def pn_process_peers_def pn_process_peer_def is_private_ip_def
      pn_add_edge_def edge_key_def Let_def)

theorem edge_endpoints_registered_witness:
  "cli_reach demo_cli_point
   \<and> edges demo_cli_point = [\<lparr>source = ''n1'', target = ''n3''\<rparr>]
   \<and> edges_closed demo_cli_point
   \<and> pn_reach demo_pn_point
   \<and> pn_edges demo_pn_point = [\<lparr>source = ''n1'', target = ''n3''\<rparr>]
   \<and> pn_edges_closed demo_pn_point"
  using edge_endpoints_registered [of demo_cli_point demo_pn_point]
  by (simp add: demo_cli_point_reach demo_cli_point_edges demo_pn_point_reach
      demo_pn_point_edges)

subsection \<open>The node registry\<close>

lemma demo_known_registry:
  "discovered_peers demo_cli_peer_known =
     [(''n3'', new_peer ''n3'' ''198.51.100.3'' demo_peer)]"
  by (simp add: demo_cli_peer_known_def process_peer_def demo_peer_def cli_init_def
      is_private_ip_def Let_def)

text \<open>
  Claim C5, as stated: a second insertion of an identity does not replace the stored
  name, address, role or organization. It fails in the seed loop of \<^verbatim>\<open>discover_peers.py\<close>:
  \<open>n3\<close> is known from a peer list as \<open>acme-vn-03\<close> at \<open>198.51.100.3\<close>; the seed at
  \<open>203.0.113.9\<close> then reports the identity \<open>n3\<close>, and the stored record becomes
  \<open>beta-on-07\<close> at \<open>203.0.113.9\<close>, organization \<open>beta\<close>.
\<close>

theorem seed_replaces_record_counterexample:
  "map_option moniker (map_of (discovered_peers demo_cli_peer_known) ''n3'') = Some ''acme-vn-03''
   \<and> map_option ip (map_of (discovered_peers demo_cli_peer_known) ''n3'') = Some ''198.51.100.3''
   \<and> \<not> isl (seed_step demo_seed_rpc ''http://203.0.113.9:26657'' demo_cli_peer_known)
   \<and> map_option moniker
        (map_of (discovered_peers
           (projr (seed_step demo_seed_rpc ''http://203.0.113.9:26657'' demo_cli_peer_known)))
           ''n3'') = Some ''beta-on-07''
   \<and> map_option ip
        (map_of (discovered_peers
           (projr (seed_step demo_seed_rpc ''http://203.0.113.9:26657'' demo_cli_peer_known)))
           ''n3'') = Some ''203.0.113.9''
   \<and> map_option org
        (map_of (discovered_peers
           (projr (seed_step demo_seed_rpc ''http://203.0.113.9:26657'' demo_cli_peer_known)))
           ''n3'') = Some ''beta''"
proof -
  have 1: "seed_step demo_seed_rpc ''http://203.0.113.9:26657'' demo_cli_peer_known
        = Inr (discover_from_node demo_seed_rpc ''n3'' ''http://203.0.113.9:26657''
                 (store_seed ''http://203.0.113.9:26657'' ''n3'' ''beta-on-07'' demo_seed_status
                    None demo_cli_peer_known))"
    by (simp add: seed_step_def demo_seed_rpc_def demo_seed_status_def Let_def)
  have 2: "discovered_peers (discover_from_node demo_seed_rpc ''n3'' ''http://203.0.113.9:26657''
                 (store_seed ''http://203.0.113.9:26657'' ''n3'' ''beta-on-07'' demo_seed_status
                    None demo_cli_peer_known))
        = [(''n3'', seed_record ''http://203.0.113.9:26657'' ''n3'' ''beta-on-07''
                      demo_seed_status None)]"
    by (simp add: discover_from_node_def process_peers_def demo_seed_rpc_def store_seed_def
        demo_known_registry)
  show ?thesis
    unfolding 1 sum.sel sum.disc 2 demo_known_registry
    by (simp add: seed_record_def new_peer_def demo_peer_def get_org_def split_first_def Let_def)
qed

lemma count_record_once:
  "distinct (map fst al) \<Longrightarrow> k \<in> fst ` set al \<Longrightarrow> length (filter (\<lambda>e. fst e = k) al) = 1"
  by (rule count_key_once)

lemma add_node_present:
  "map_of (nodes t) pid = Some n \<Longrightarrow>
     add_node pid i p m v ra dv h t =
       t\<lparr>nodes := AList.update pid
            (n\<lparr>rpc_accessible := rpc_accessible n \<or> ra,
               dcl_version := (if truthy dv then dv else dcl_version n),
               height := (if truthy h then h else height n)\<rparr>) (nodes t)\<rparr>"
  by (simp add: add_node_def Let_def)

lemma add_node_registers: "\<exists>n. map_of (nodes (add_node pid i p m v ra dv h t)) pid = Some n"
proof -
  have "pid \<in> fst ` set (nodes (add_node pid i p m v ra dv h t))" by (simp add: add_node_keys)
  then have "map_of (nodes (add_node pid i p m v ra dv h t)) pid \<noteq> None"
    by (simp add: map_of_eq_None_iff)
  then show ?thesis by blast
qed

lemma add_node_distinct:
  "distinct (map fst (nodes t)) \<Longrightarrow> distinct (map fst (nodes (add_node pid i p m v ra dv h t)))"
  by (cases "map_of (nodes t) pid") (simp_all add: add_node_def Let_def AList.distinct_update)

lemma add_node_other:
  "q \<noteq> pid \<Longrightarrow> map_of (nodes (add_node pid i p m v ra dv h t)) q = map_of (nodes t) q"
  by (cases "map_of (nodes t) pid") (simp_all add: add_node_def Let_def AList.update_conv')

lemma process_peer_known:
  assumes "pe_id p = Some pid" and "map_of (discovered_peers s) pid = Some info"
  shows "discovered_peers (process_peer src p s) = discovered_peers s"
proof (cases rule: process_peer_cases [of src p s])
  case skip
  then show ?thesis by simp
next
  case (accept i a)
  with assms show ?thesis by (simp add: Let_def)
qed

lemma store_seed_distinct:
  "distinct (map fst (discovered_peers s))
   \<Longrightarrow> distinct (map fst (discovered_peers (store_seed seed seed_id m st dcl s)))"
  by (simp add: store_seed_def AList.distinct_update)


text \<open>
  Claim C5, amended. Inserting an identity twice never creates two records for it. In
  the web server a second \<^verbatim>\<open>add_node\<close> of an identity keeps the keys of the registry and
  every other record, and changes the record of the identity in three fields only:
  reachability (raised, never cleared), application version and height (replaced when
  the call supplies a non-empty value); name, address, role, organization and the
  rest stay. In \<^verbatim>\<open>discover_peers.py\<close> a peer entry for a registered identity leaves the
  registry unchanged, and the seed loop stores the seed's record under its identity
  whether or not one exists, still as the only record of that identity.
\<close>

theorem second_insert_keeps_record:
  assumes "distinct (map fst (nodes t))" and "distinct (map fst (discovered_peers s))"
  shows
    "length (filter (\<lambda>e. fst e = pid)
        (nodes (add_node pid i2 p2 m2 v2 ra2 dv2 h2 (add_node pid i1 p1 m1 v1 ra1 dv1 h1 t)))) = 1
     \<and> (\<exists>n1. map_of (nodes (add_node pid i1 p1 m1 v1 ra1 dv1 h1 t)) pid = Some n1
           \<and> map_of (nodes (add_node pid i2 p2 m2 v2 ra2 dv2 h2
                               (add_node pid i1 p1 m1 v1 ra1 dv1 h1 t))) pid
               = Some (n1\<lparr>rpc_accessible := rpc_accessible n1 \<or> ra2,
                          dcl_version := (if truthy dv2 then dv2 else dcl_version n1),
                          height := (if truthy h2 then h2 else height n1)\<rparr>))
     \<and> map fst (nodes (add_node pid i2 p2 m2 v2 ra2 dv2 h2
                          (add_node pid i1 p1 m1 v1 ra1 dv1 h1 t)))
         = map fst (nodes (add_node pid i1 p1 m1 v1 ra1 dv1 h1 t))
     \<and> (\<forall>q. q \<noteq> pid \<longrightarrow>
           map_of (nodes (add_node pid i2 p2 m2 v2 ra2 dv2 h2
                            (add_node pid i1 p1 m1 v1 ra1 dv1 h1 t))) q
             = map_of (nodes (add_node pid i1 p1 m1 v1 ra1 dv1 h1 t)) q)
     \<and> (pe_id p = Some pid \<and> map_of (discovered_peers s) pid \<noteq> None \<longrightarrow>
           discovered_peers (process_peer src p s) = discovered_peers s)
     \<and> length (filter (\<lambda>e. fst e = pid)
          (discovered_peers (store_seed seed pid m st dcl s))) = 1"
proof -
  let ?t1 = "add_node pid i1 p1 m1 v1 ra1 dv1 h1 t"
  let ?t2 = "add_node pid i2 p2 m2 v2 ra2 dv2 h2 ?t1"
  obtain n1 where n1: "map_of (nodes ?t1) pid = Some n1"
    using add_node_registers [of pid i1 p1 m1 v1 ra1 dv1 h1 t] by blast
  let ?n2 = "n1\<lparr>rpc_accessible := rpc_accessible n1 \<or> ra2,
                 dcl_version := (if truthy dv2 then dv2 else dcl_version n1),
                 height := (if truthy h2 then h2 else height n1)\<rparr>"
  have t2: "nodes ?t2 = AList.update pid ?n2 (nodes ?t1)"
    by (simp add: add_node_present [OF n1])
  have d2: "distinct (map fst (nodes ?t2))"
    using assms(1) by (intro add_node_distinct)
  have a: "length (filter (\<lambda>e. fst e = pid) (nodes ?t2)) = 1"
    using d2 by (rule count_record_once) (simp add: add_node_keys)
  have b: "map_of (nodes ?t2) pid = Some ?n2"
    unfolding t2 by (simp add: AList.update_conv')
  have c: "map fst (nodes ?t2) = map fst (nodes ?t1)"
    unfolding t2 using n1 by (rule update_keys_present)
  have d: "\<forall>q. q \<noteq> pid \<longrightarrow> map_of (nodes ?t2) q = map_of (nodes ?t1) q"
    by (simp add: add_node_other)
  have e: "pe_id p = Some pid \<and> map_of (discovered_peers s) pid \<noteq> None \<longrightarrow>
           discovered_peers (process_peer src p s) = discovered_peers s"
    using process_peer_known [of p pid s _ src] by blast
  have f: "length (filter (\<lambda>e. fst e = pid)
          (discovered_peers (store_seed seed pid m st dcl s))) = 1"
    using store_seed_distinct [OF assms(2)]
    by (rule count_record_once) (simp add: store_seed_key)
  from n1 a b c d e f show ?thesis by blast
qed

theorem second_insert_keeps_record_witness:
  "distinct (map fst (nodes pn_init))
   \<and> distinct (map fst (discovered_peers demo_cli_peer_known))
   \<and> pe_id demo_peer = Some ''n3''
   \<and> map_of (discovered_peers demo_cli_peer_known) ''n3'' \<noteq> None
   \<and> discovered_peers (process_peer ''n1'' demo_peer demo_cli_peer_known)
       = discovered_peers demo_cli_peer_known
   \<and> length (filter (\<lambda>e. fst e = ''n3'')
        (nodes (add_node ''n3'' ''203.0.113.9'' 26656 ''beta-on-07'' None True None None
                 (add_node ''n3'' ''198.51.100.3'' 26656 ''acme-vn-03'' None False None None
                    pn_init)))) = 1"
proof -
  have 1: "distinct (map fst (nodes pn_init))" by (simp add: pn_init_def)
  have 2: "distinct (map fst (discovered_peers demo_cli_peer_known))"
    by (simp add: demo_known_registry)
  have 3: "pe_id demo_peer = Some ''n3''" by (simp add: demo_peer_def)
  have 4: "map_of (discovered_peers demo_cli_peer_known) ''n3'' \<noteq> None"
    by (simp add: demo_known_registry)
  from 1 2 3 4
    second_insert_keeps_record [OF 1 2, of "''n3''" "''203.0.113.9''" 26656 "''beta-on-07''"
      None True None None "''198.51.100.3''" 26656 "''acme-vn-03''" None False None None
      demo_peer "''n1''"]
  show ?thesis by blast
qed

subsection \<open>Merge updates never lose what is known\<close>

lemma is_accessible_nodes_eq: "nodes t' = nodes t \<Longrightarrow> is_accessible t' pid = is_accessible t pid"
  by (simp add: is_accessible_def)

lemma is_accessible_add_node:
  assumes "is_accessible t pid"
  shows "is_accessible (add_node q i p m v ra dv h t) pid"
proof (cases "q = pid")
  case False
  then have "map_of (nodes (add_node q i p m v ra dv h t)) pid = map_of (nodes t) pid"
    by (simp add: add_node_other)
  with assms show ?thesis by (simp add: is_accessible_def)
next
  case True
  from assms obtain n where n: "map_of (nodes t) pid = Some n" "rpc_accessible n"
    by (auto simp: is_accessible_def split: option.splits)
  show ?thesis
    unfolding True add_node_present [OF n(1)] using n(2)
    by (simp add: is_accessible_def AList.update_conv')
qed

lemma is_accessible_add_nodes:
  "is_accessible t pid \<Longrightarrow> is_accessible (add_nodes calls t) pid"
proof (induction calls arbitrary: t)
  case Nil
  then show ?case by (simp add: add_nodes_def)
next
  case (Cons c calls)
  have "is_accessible (apply_add_node c t) pid"
    using Cons.prems by (simp add: apply_add_node_def is_accessible_add_node)
  from Cons.IH [OF this] show ?case by (simp add: add_nodes_def)
qed

lemma is_accessible_pn_process_peer:
  assumes "is_accessible t pid"
  shows "is_accessible (pn_process_peer src p t) pid"
proof (cases rule: pn_process_peer_cases [of src p t])
  case skip
  with assms show ?thesis by simp
next
  case (accept i a)
  have "is_accessible (add_node i a 26656 (get_default (pe_moniker p) ''unknown'')
                     (Some (get_default (pe_version p) ''unknown'')) False None None t) pid"
    using assms by (rule is_accessible_add_node)
  then show ?thesis unfolding accept(6) by (simp add: Let_def is_accessible_def)
qed

lemma is_accessible_pn_process_peers:
  "is_accessible t pid \<Longrightarrow> is_accessible (pn_process_peers src ps t) pid"
  by (induction ps arbitrary: t)
     (simp_all add: pn_process_peers_def is_accessible_pn_process_peer)

lemma is_accessible_pn_discover_upto:
  assumes "is_accessible t pid"
  shows "is_accessible (pn_discover_upto k r src url t) pid"
proof (cases "url \<in> pn_visited_rpcs t")
  case True
  with assms show ?thesis by (simp add: pn_discover_upto_def)
next
  case False
  have "is_accessible (t\<lparr>pn_visited_rpcs := insert url (pn_visited_rpcs t)\<rparr>) pid"
    using assms by (simp add: is_accessible_def)
  then show ?thesis using False
    by (simp add: pn_discover_upto_def is_accessible_pn_process_peers)
qed

lemma is_accessible_refresh_node:
  assumes "is_accessible t pid"
  shows "is_accessible (refresh_node r q info t) pid"
proof (cases "query_status r (rpc_url info)")
  case None
  with assms show ?thesis by (simp add: refresh_node_def)
next
  case (Some st)
  have "is_accessible (add_node q (ip info) (port info) (moniker info)
          (tendermint_version info) True (query_abci_info r (rpc_url info)) (st_height st) t) pid"
    using assms by (rule is_accessible_add_node)
  then show ?thesis using Some by (simp add: refresh_node_def Let_def is_accessible_def)
qed

lemma is_accessible_mark_discovered:
  "is_accessible t pid \<Longrightarrow> is_accessible (mark_discovered q t) pid"
  by (auto simp: is_accessible_def mark_discovered_def AList.map_of_map_entry
      split: option.splits)

lemma is_accessible_crawl_worker:
  assumes "is_accessible t pid"
  shows "is_accessible (crawl_worker r q t) pid"
proof (cases "map_of (nodes t) q")
  case None
  with assms show ?thesis by (simp add: crawl_worker_def)
next
  case (Some info)
  have "is_accessible (pn_discover_upto (length (query_net_info r (rpc_url info))) r q
          (rpc_url info) (refresh_node r q info t)) pid"
    using assms by (intro is_accessible_pn_discover_upto is_accessible_refresh_node)
  then show ?thesis using Some
    by (simp add: crawl_worker_def Let_def pn_discover_whole is_accessible_mark_discovered)
qed

lemma pn_seed_step_cases:
  assumes "pn_seed_step r seed t = Inr t'"
  obtains (skip) "t' = t"
  | (go) url m st seed_id ip' where "seed = (url, m)" "query_status r url = Some st"
      "st_id st = Some seed_id" "seed_id \<noteq> []" "seed_ip url = Inr ip'"
      "t' = mark_discovered seed_id (pn_discover_from_node r seed_id url
              (add_node seed_id ip' 26656 m (st_version st) True
                 (query_abci_info r url) (st_height st) t))"
proof -
  obtain url m where seed: "seed = (url, m)" by (cases seed)
  show ?thesis
  proof (cases "\<exists>st seed_id ip'. query_status r url = Some st \<and> st_id st = Some seed_id
                  \<and> seed_id \<noteq> [] \<and> seed_ip url = Inr ip'")
    case False
    with assms seed have "t' = t"
      by (auto simp: pn_seed_step_def Let_def split: option.splits if_splits sum.splits)
    then show ?thesis by (rule skip)
  next
    case True
    then obtain st seed_id ip' where c: "query_status r url = Some st" "st_id st = Some seed_id"
      "seed_id \<noteq> []" "seed_ip url = Inr ip'" by blast
    have "t' = mark_discovered seed_id (pn_discover_from_node r seed_id url
              (add_node seed_id ip' 26656 m (st_version st) True
                 (query_abci_info r url) (st_height st) t))"
      using assms seed c by (simp add: pn_seed_step_def Let_def)
    with seed c show ?thesis by (rule go)
  qed
qed

lemma is_accessible_pn_seed_step:
  assumes "pn_seed_step r seed t = Inr t'" and "is_accessible t pid"
  shows "is_accessible t' pid"
  using assms(1)
proof (cases rule: pn_seed_step_cases)
  case skip
  with assms(2) show ?thesis by simp
next
  case (go url m st seed_id ip')
  show ?thesis unfolding go(6) pn_discover_whole
    using assms(2)
    by (intro is_accessible_mark_discovered is_accessible_pn_discover_upto is_accessible_add_node)
qed

lemma pn_step_accessible: "pn_step t t' \<Longrightarrow> is_accessible t pid \<Longrightarrow> is_accessible t' pid"
proof (induction rule: pn_step.induct)
  case (seed_added r url st seed_id ip' s moniker')
  then show ?case by (simp add: is_accessible_add_node)
next
  case (seed_discovering r url st seed_id ip' s k moniker')
  then show ?case by (simp add: is_accessible_pn_discover_upto is_accessible_add_node)
next
  case (seed_done r seed s s')
  then show ?case by (rule is_accessible_pn_seed_step)
next
  case (worker_refreshed s pid p r)
  then show ?case by (simp add: is_accessible_refresh_node)
next
  case (worker_discovering s pid p k r)
  then show ?case by (simp add: is_accessible_pn_discover_upto is_accessible_refresh_node)
next
  case (worker_done s r pid)
  then show ?case by (simp add: is_accessible_crawl_worker)
next
  case (completed s)
  then show ?case by (simp add: is_accessible_def)
qed

lemma pn_steps_accessible:
  "pn_step\<^sup>*\<^sup>* t t' \<Longrightarrow> is_accessible t pid \<Longrightarrow> is_accessible t' pid"
  by (induction rule: rtranclp_induct) (simp_all add: pn_step_accessible)


lemma update_absent: "map_of al k = None \<Longrightarrow> AList.update k v al = al @ [(k, v)]"
  by (induction al) (auto split: if_splits)

lemma set_update_subset: "set (AList.update k v al) \<subseteq> insert (k, v) (set al)"
  by (induction al) auto

lemma process_peer_registry:
  "discovered_peers (process_peer src p s) = discovered_peers s
   \<or> (\<exists>i a. map_of (discovered_peers s) i = None
         \<and> discovered_peers (process_peer src p s) = discovered_peers s @ [(i, new_peer i a p)])"
proof (cases rule: process_peer_cases [of src p s])
  case skip
  then show ?thesis by simp
next
  case (accept i a)
  show ?thesis
  proof (cases "map_of (discovered_peers s) i = None")
    case True
    then have "discovered_peers (process_peer src p s) = discovered_peers s @ [(i, new_peer i a p)]"
      unfolding accept(6) by (simp add: Let_def update_absent)
    with True show ?thesis by blast
  next
    case False
    then have "discovered_peers (process_peer src p s) = discovered_peers s"
      unfolding accept(6) by (auto simp: Let_def)
    then show ?thesis by blast
  qed
qed

lemma new_peer_settled: "settled (new_peer i a p)"
  by (simp add: settled_def new_peer_def Let_def)

lemma process_peer_settled: "all_settled s \<Longrightarrow> all_settled (process_peer src p s)"
  using process_peer_registry [of src p s]
  by (auto simp: all_settled_def new_peer_settled)

lemma process_peer_lookup:
  "map_of (discovered_peers s) pid = Some info
   \<Longrightarrow> map_of (discovered_peers (process_peer src p s)) pid = Some info"
  using process_peer_registry [of src p s] by auto

lemma process_peers_settled: "all_settled s \<Longrightarrow> all_settled (process_peers src ps s)"
  by (induction ps arbitrary: s) (simp_all add: process_peers_def process_peer_settled)

lemma process_peers_lookup:
  "map_of (discovered_peers s) pid = Some info
   \<Longrightarrow> map_of (discovered_peers (process_peers src ps s)) pid = Some info"
  by (induction ps arbitrary: s) (simp_all add: process_peers_def process_peer_lookup)

lemma discover_upto_settled: "all_settled s \<Longrightarrow> all_settled (discover_upto k r src url s)"
proof -
  assume a: "all_settled s"
  then have "all_settled (s\<lparr>visited_rpcs := insert url (visited_rpcs s)\<rparr>)"
    by (simp add: all_settled_def)
  with a show ?thesis by (simp add: discover_upto_def process_peers_settled)
qed

lemma discover_upto_lookup:
  "map_of (discovered_peers s) pid = Some info
   \<Longrightarrow> map_of (discovered_peers (discover_upto k r src url s)) pid = Some info"
  by (simp add: discover_upto_def process_peers_lookup)

lemma seed_record_settled: "settled (seed_record seed seed_id m st dcl)"
  by (simp add: settled_def seed_record_def)

lemma store_seed_settled: "all_settled s \<Longrightarrow> all_settled (store_seed seed seed_id m st dcl s)"
  using set_update_subset [of seed_id "seed_record seed seed_id m st dcl" "discovered_peers s"]
  by (auto simp: all_settled_def store_seed_def seed_record_settled)

lemma check_peer_settled: "settled p \<Longrightarrow> settled (fst (check_peer r pid p))"
  by (auto simp: settled_def check_peer_def split: option.splits)

lemma cli_step_settled: "cli_step s s' \<Longrightarrow> all_settled s \<Longrightarrow> all_settled s'"
proof (induction rule: cli_step.induct)
  case (seed_stored r seed st seed_id moniker' s)
  then show ?case by (simp add: store_seed_settled)
next
  case (seed_discover r seed st seed_id moniker' s k)
  then show ?case by (simp add: discover_upto_settled store_seed_settled)
next
  case (task s pid p k r)
  then show ?case by (simp add: discover_upto_settled)
next
  case (checked s pid p r)
  have "settled p" using checked by (auto simp: all_settled_def dest: map_of_SomeD)
  then have "settled (fst (check_peer r pid p))" by (rule check_peer_settled)
  then show ?case
    using checked(2) set_update_subset [of pid "fst (check_peer r pid p)" "discovered_peers s"]
    by (auto simp: all_settled_def)
qed

lemma cli_init_settled: "all_settled cli_init"
  by (simp add: all_settled_def cli_init_def)

lemma cli_reach_settled: "cli_reach s \<Longrightarrow> all_settled s"
  unfolding cli_reach_def
  by (induction rule: rtranclp_induct) (simp_all add: cli_step_settled cli_init_settled)

lemma cli_accessible_lookup:
  "cli_accessible s pid \<longleftrightarrow> (\<exists>p. map_of (discovered_peers s) pid = Some p \<and> rpc_accessible p)"
  by (auto simp: cli_accessible_def split: option.splits)

lemma cli_accessible_discover_upto:
  "cli_accessible s pid \<Longrightarrow> cli_accessible (discover_upto k r src url s) pid"
  unfolding cli_accessible_lookup using discover_upto_lookup by blast

lemma cli_accessible_store_seed:
  "cli_accessible s pid \<Longrightarrow> cli_accessible (store_seed seed seed_id m st dcl s) pid"
  by (cases "seed_id = pid")
     (auto simp: cli_accessible_lookup store_seed_def AList.update_conv' seed_record_def)

lemma check_peer_accessible: "rpc_accessible p \<Longrightarrow> fst (check_peer r pid p) = p"
  by (simp add: check_peer_def)

lemma cli_step_accessible: "cli_step s s' \<Longrightarrow> cli_accessible s pid \<Longrightarrow> cli_accessible s' pid"
proof (induction rule: cli_step.induct)
  case (seed_stored r seed st seed_id moniker' s)
  then show ?case by (simp add: cli_accessible_store_seed)
next
  case (seed_discover r seed st seed_id moniker' s k)
  then show ?case by (simp add: cli_accessible_discover_upto cli_accessible_store_seed)
next
  case (task s q p k r)
  then show ?case by (simp add: cli_accessible_discover_upto)
next
  case (checked s q p r)
  show ?case
  proof (cases "q = pid")
    case True
    with checked have "rpc_accessible p" by (auto simp: cli_accessible_lookup)
    then show ?thesis using True
      by (simp add: cli_accessible_lookup AList.update_conv' check_peer_accessible)
  next
    case False
    with checked(2) show ?thesis by (simp add: cli_accessible_lookup AList.update_conv')
  qed
qed

lemma cli_steps_accessible:
  "cli_step\<^sup>*\<^sup>* s s' \<Longrightarrow> cli_accessible s pid \<Longrightarrow> cli_accessible s' pid"
  by (induction rule: rtranclp_induct) (simp_all add: cli_step_accessible)

lemma check_peer_keeps:
  assumes "settled p"
  shows "(query_abci_info r (rpc_url p) = None
            \<longrightarrow> dcl_version (fst (check_peer r pid p)) = dcl_version p)
       \<and> ((\<forall>st. query_status r (rpc_url p) = Some st \<longrightarrow> st_height st = None)
            \<longrightarrow> height (fst (check_peer r pid p)) = height p)
       \<and> (rpc_accessible p \<longrightarrow> fst (check_peer r pid p) = p)"
  using assms by (auto simp: settled_def check_peer_def split: option.splits)


text \<open>
  Claim C6. Once the reachability flag of a node is true, no later update sets it back:
  not a sequence of \<^verbatim>\<open>add_node\<close> calls, not any further step of a run of the web crawler,
  not any further step of a run of the command-line crawler (\<^verbatim>\<open>check_peer\<close> included).
  An \<^verbatim>\<open>add_node\<close> on a known identity replaces the application version and the height
  only by a value that the call supplies, and leaves them as they are otherwise; and
  on the records of a run of the command-line crawler \<^verbatim>\<open>check_peer\<close> leaves the version
  unchanged when the application query returns none, and the height unchanged when
  the status holds none.
\<close>

theorem reachability_never_cleared:
  "(is_accessible t pid \<longrightarrow> is_accessible (add_nodes calls t) pid)
   \<and> (pn_step\<^sup>*\<^sup>* t t' \<and> is_accessible t pid \<longrightarrow> is_accessible t' pid)
   \<and> (map_of (nodes t) pid = Some n \<longrightarrow>
        (\<exists>n'. map_of (nodes (add_node pid i p m v ra dv h t)) pid = Some n'
            \<and> rpc_accessible n' = (rpc_accessible n \<or> ra)
            \<and> dcl_version n' = (if truthy dv then dv else dcl_version n)
            \<and> height n' = (if truthy h then h else height n)))
   \<and> (cli_step\<^sup>*\<^sup>* s s' \<and> cli_accessible s pid \<longrightarrow> cli_accessible s' pid)
   \<and> (cli_reach s \<and> map_of (discovered_peers s) pid = Some info \<longrightarrow>
        (rpc_accessible info \<longrightarrow> fst (check_peer r pid info) = info)
        \<and> (query_abci_info r (rpc_url info) = None
             \<longrightarrow> dcl_version (fst (check_peer r pid info)) = dcl_version info)
        \<and> ((\<forall>st. query_status r (rpc_url info) = Some st \<longrightarrow> st_height st = None)
             \<longrightarrow> height (fst (check_peer r pid info)) = height info))"
proof -
  have 1: "is_accessible t pid \<longrightarrow> is_accessible (add_nodes calls t) pid"
    by (simp add: is_accessible_add_nodes)
  have 2: "pn_step\<^sup>*\<^sup>* t t' \<and> is_accessible t pid \<longrightarrow> is_accessible t' pid"
    using pn_steps_accessible by blast
  have 3: "map_of (nodes t) pid = Some n \<longrightarrow>
        (\<exists>n'. map_of (nodes (add_node pid i p m v ra dv h t)) pid = Some n'
            \<and> rpc_accessible n' = (rpc_accessible n \<or> ra)
            \<and> dcl_version n' = (if truthy dv then dv else dcl_version n)
            \<and> height n' = (if truthy h then h else height n))"
    by (simp add: add_node_present AList.update_conv')
  have 4: "cli_step\<^sup>*\<^sup>* s s' \<and> cli_accessible s pid \<longrightarrow> cli_accessible s' pid"
    using cli_steps_accessible by blast
  have 5: "cli_reach s \<and> map_of (discovered_peers s) pid = Some info \<longrightarrow>
        (rpc_accessible info \<longrightarrow> fst (check_peer r pid info) = info)
        \<and> (query_abci_info r (rpc_url info) = None
             \<longrightarrow> dcl_version (fst (check_peer r pid info)) = dcl_version info)
        \<and> ((\<forall>st. query_status r (rpc_url info) = Some st \<longrightarrow> st_height st = None)
             \<longrightarrow> height (fst (check_peer r pid info)) = height info)"
  proof
    assume a: "cli_reach s \<and> map_of (discovered_peers s) pid = Some info"
    then have "all_settled s" by (simp add: cli_reach_settled)
    with a have "settled info" by (auto simp: all_settled_def dest: map_of_SomeD)
    then show "(rpc_accessible info \<longrightarrow> fst (check_peer r pid info) = info)
        \<and> (query_abci_info r (rpc_url info) = None
             \<longrightarrow> dcl_version (fst (check_peer r pid info)) = dcl_version info)
        \<and> ((\<forall>st. query_status r (rpc_url info) = Some st \<longrightarrow> st_height st = None)
             \<longrightarrow> height (fst (check_peer r pid info)) = height info)"
      using check_peer_keeps [of info r pid] by blast
  qed
  from 1 2 3 4 5 show ?thesis by blast
qed

lemma demo_pn_seeded_nodes:
  "nodes demo_pn_seeded =
     [(''n1'',
       \<lparr>node_id = ''n1'', ip = ''198.51.100.1'', port = 26656, moniker = ''CSA-ON-01'',
        tendermint_version = Some ''0.34.24'', node_type = get_node_type ''CSA-ON-01'',
        org = get_org ''CSA-ON-01'', rpc_url = ''http://198.51.100.1:26657'',
        rpc_accessible = True, dcl_version = None, height = Some ''1200'',
        discovered = False\<rparr>)]"
  by (simp add: demo_pn_seeded_def add_node_def reset_def pn_init_def demo_status_def
      demo_rpc_def Let_def)

lemma demo_cli_point_n1:
  "map_of (discovered_peers demo_cli_point) ''n1''
     = Some (seed_record ''http://198.51.100.1:26657'' ''n1'' ''acme-sn-01''
               (demo_status ''n1'') None)"
proof -
  have "map_of (discovered_peers (store_seed ''http://198.51.100.1:26657'' ''n1'' ''acme-sn-01''
          (demo_status ''n1'') (query_abci_info demo_rpc ''http://198.51.100.1:26657'') cli_init))
          ''n1''
        = Some (seed_record ''http://198.51.100.1:26657'' ''n1'' ''acme-sn-01''
               (demo_status ''n1'') None)"
    by (simp add: store_seed_def cli_init_def demo_rpc_def)
  then show ?thesis unfolding demo_cli_point_def by (rule discover_upto_lookup)
qed

theorem reachability_never_cleared_witness:
  "is_accessible demo_pn_seeded ''n1''
   \<and> is_accessible (add_nodes [demo_call] demo_pn_seeded) ''n1''
   \<and> pn_step\<^sup>*\<^sup>* demo_pn_seeded demo_pn_point
   \<and> is_accessible demo_pn_point ''n1''
   \<and> map_option height (map_of (nodes (apply_add_node demo_call demo_pn_seeded)) ''n1'')
       = Some (Some ''1200'')
   \<and> cli_reach demo_cli_point
   \<and> cli_accessible demo_cli_point ''n1''
   \<and> fst (check_peer demo_rpc ''n1''
            (seed_record ''http://198.51.100.1:26657'' ''n1'' ''acme-sn-01''
               (demo_status ''n1'') None))
       = seed_record ''http://198.51.100.1:26657'' ''n1'' ''acme-sn-01'' (demo_status ''n1'') None"
proof -
  let ?n = "\<lparr>node_id = ''n1'', ip = ''198.51.100.1'', port = 26656, moniker = ''CSA-ON-01'',
        tendermint_version = Some ''0.34.24'', node_type = get_node_type ''CSA-ON-01'',
        org = get_org ''CSA-ON-01'', rpc_url = ''http://198.51.100.1:26657'',
        rpc_accessible = True, dcl_version = None, height = Some ''1200'',
        discovered = False\<rparr>"
  let ?info = "seed_record ''http://198.51.100.1:26657'' ''n1'' ''acme-sn-01''
                 (demo_status ''n1'') None"
  have a: "is_accessible demo_pn_seeded ''n1''"
    by (simp add: is_accessible_def demo_pn_seeded_nodes)
  have b: "pn_step\<^sup>*\<^sup>* demo_pn_seeded demo_pn_point"
    unfolding demo_pn_point_def by (rule r_into_rtranclp, rule pn_step.worker_done)
  have c: "map_of (nodes demo_pn_seeded) ''n1'' = Some ?n"
    by (simp add: demo_pn_seeded_nodes)
  have d: "cli_step\<^sup>*\<^sup>* demo_cli_point demo_cli_point" by simp
  have e: "cli_accessible demo_cli_point ''n1''"
    by (simp add: cli_accessible_def demo_cli_point_n1 seed_record_def)
  have f: "rpc_accessible ?info" by (simp add: seed_record_def)
  note inst = reachability_never_cleared [of demo_pn_seeded "''n1''" "[demo_call]" demo_pn_point
      ?n "''198.51.100.1''" 26656 "''acme-sn-01''" "Some ''0.34.24''" False None None
      demo_cli_point demo_cli_point ?info demo_rpc]
  have 1: "is_accessible (add_nodes [demo_call] demo_pn_seeded) ''n1''" using inst a by blast
  have 2: "is_accessible demo_pn_point ''n1''" using inst a b by blast
  have 3: "map_option height (map_of (nodes (apply_add_node demo_call demo_pn_seeded)) ''n1'')
       = Some (Some ''1200'')"
    using inst c by (auto simp: apply_add_node_def demo_call_def)
  have 4: "fst (check_peer demo_rpc ''n1'' ?info) = ?info"
    using inst demo_cli_point_reach demo_cli_point_n1 f by blast
  from a 1 b 2 3 demo_cli_point_reach e 4 show ?thesis by blast
qed

subsection \<open>The crawl loop halts on a finite network\<close>




lemma cli_grows_refl: "cli_grows r s s"
  by (simp add: cli_grows_def)

lemma cli_grows_trans:
  assumes "cli_grows r s s'" and "cli_grows r s' s''"
  shows "cli_grows r s s''"
proof -
  have k: "fst ` set (discovered_peers s) \<subseteq> fst ` set (discovered_peers s')"
    "fst ` set (discovered_peers s') \<subseteq> fst ` set (discovered_peers s'')"
    using assms by (simp_all add: cli_grows_def)
  have u: "fst ` set (discovered_peers s') \<subseteq> fst ` set (discovered_peers s) \<union> peer_ids r"
    "fst ` set (discovered_peers s'') \<subseteq> fst ` set (discovered_peers s') \<union> peer_ids r"
    using assms by (simp_all add: cli_grows_def)
  have v: "visited_rpcs s \<subseteq> visited_rpcs s'" "visited_rpcs s' \<subseteq> visited_rpcs s''"
    using assms by (simp_all add: cli_grows_def)
  have e1: "\<forall>e \<in> set (discovered_peers s').
            e \<in> set (discovered_peers s) \<or> fst e \<notin> fst ` set (discovered_peers s)"
    using assms(1) by (simp add: cli_grows_def)
  have e2: "\<forall>e \<in> set (discovered_peers s'').
            e \<in> set (discovered_peers s') \<or> fst e \<notin> fst ` set (discovered_peers s')"
    using assms(2) by (simp add: cli_grows_def)
  have e: "\<forall>e \<in> set (discovered_peers s'').
            e \<in> set (discovered_peers s) \<or> fst e \<notin> fst ` set (discovered_peers s)"
    using e1 e2 k(1) by blast
  have "fst ` set (discovered_peers s) \<subseteq> fst ` set (discovered_peers s'')" using k by blast
  moreover have "fst ` set (discovered_peers s'') \<subseteq> fst ` set (discovered_peers s) \<union> peer_ids r"
    using u by blast
  moreover have "visited_rpcs s \<subseteq> visited_rpcs s''" using v by blast
  ultimately show ?thesis using e unfolding cli_grows_def by blast
qed

lemma process_peer_grows:
  assumes "p \<in> set (query_net_info r url)"
  shows "cli_grows r s (process_peer src p s)"
proof (cases rule: process_peer_cases [of src p s])
  case skip
  then show ?thesis by (simp add: cli_grows_refl)
next
  case (accept i a)
  have v: "visited_rpcs (process_peer src p s) = visited_rpcs s"
    unfolding accept(6) by (simp add: Let_def)
  show ?thesis
  proof (cases "map_of (discovered_peers s) i = None")
    case False
    then have "discovered_peers (process_peer src p s) = discovered_peers s"
      unfolding accept(6) by (auto simp: Let_def)
    with v show ?thesis by (simp add: cli_grows_def)
  next
    case True
    then have d: "discovered_peers (process_peer src p s)
        = discovered_peers s @ [(i, new_peer i a p)]"
      unfolding accept(6) by (simp add: Let_def update_absent)
    have n: "i \<notin> fst ` set (discovered_peers s)"
      using True by (simp add: map_of_eq_None_iff)
    have "i \<in> peer_ids r" using assms accept(1) unfolding peer_ids_def by blast
    with v n show ?thesis unfolding cli_grows_def d by auto
  qed
qed

lemma process_peers_grows:
  "set ps \<subseteq> set (query_net_info r url) \<Longrightarrow> cli_grows r s (process_peers src ps s)"
proof (induction ps arbitrary: s)
  case Nil
  then show ?case by (simp add: process_peers_def cli_grows_refl)
next
  case (Cons p ps)
  have 1: "cli_grows r s (process_peer src p s)"
    using Cons.prems by (intro process_peer_grows [where url = url]) simp
  have 2: "cli_grows r (process_peer src p s) (process_peers src ps (process_peer src p s))"
    using Cons.prems by (intro Cons.IH) simp
  from cli_grows_trans [OF 1 2] show ?case by (simp add: process_peers_def)
qed

lemma discover_from_node_grows:
  "cli_grows r s (discover_from_node r src url s)
   \<and> url \<in> visited_rpcs (discover_from_node r src url s)"
proof (cases "url \<in> visited_rpcs s")
  case True
  then show ?thesis by (simp add: discover_from_node_def cli_grows_refl)
next
  case False
  let ?s = "s\<lparr>visited_rpcs := insert url (visited_rpcs s)\<rparr>"
  have 1: "cli_grows r s ?s" by (auto simp: cli_grows_def)
  have 2: "cli_grows r ?s (process_peers src (query_net_info r url) ?s)"
    by (rule process_peers_grows [where url = url]) simp
  have 3: "cli_grows r s (process_peers src (query_net_info r url) ?s)"
    using 1 2 by (rule cli_grows_trans)
  have "url \<in> visited_rpcs (process_peers src (query_net_info r url) ?s)"
    using 2 by (auto simp: cli_grows_def)
  with 3 False show ?thesis by (simp add: discover_from_node_def)
qed




lemma sched_set: "\<forall>xs. mset (sched xs) = mset xs \<Longrightarrow> set (sched xs) = set xs"
  by (rule mset_eq_setD) simp





lemma add_node_visited [simp]:
  "pn_visited_rpcs (add_node q i p m v ra dv h t) = pn_visited_rpcs t"
  by (cases "map_of (nodes t) q") (simp_all add: add_node_def Let_def)
























subsection \<open>Two seeds with one common peer\<close>


lemma rpc_url_new_peer [simp]: "rpc_url (new_peer i a p) = ''http://'' @ a @ '':26657''"
  by (simp add: new_peer_def Let_def)

lemma rpc_url_seed_record [simp]: "rpc_url (seed_record seed i m st dcl) = seed"
  by (simp add: seed_record_def)









subsection \<open>Visiting an address once\<close>

text \<open>
  When tasks run one after the other, a second task for an address finds it visited
  and does nothing.
\<close>

lemma discover_from_node_second_time:
  "discover_from_node r' pid' url (discover_from_node r pid url s) = discover_from_node r pid url s"
  using discover_from_node_grows [of r s pid url] by (simp add: discover_from_node_def)

lemma shared_address_frontier:
  "peers_to_query shared_address_state
     = [(''n4'', ''http://198.51.100.7:26657''), (''n5'', ''http://198.51.100.7:26657'')]"
  by (simp add: shared_address_state_def process_peers_def process_peer_def cli_init_def
      is_private_ip_def peers_to_query_def new_peer_def Let_def)

lemma shared_address_pool:
  "dispatch shared_address_state
     = \<lparr>p_visited = {}, p_queried = [],
        p_workers = [\<lparr>w_url = ''http://198.51.100.7:26657'', w_pc = AtCheck\<rparr>,
                     \<lparr>w_url = ''http://198.51.100.7:26657'', w_pc = AtCheck\<rparr>]\<rparr>"
proof -
  have "visited_rpcs shared_address_state = {}"
    by (simp add: shared_address_state_def process_peers_def process_peer_def cli_init_def
        is_private_ip_def Let_def)
  then show ?thesis by (simp add: dispatch_def shared_address_frontier)
qed

text \<open>
  Claim C2. Each address should be queried at most once per run, also when the pool
  runs two tasks for the same address, the membership test and the insertion being
  one atomic step. In the source they are two statements with no lock around them.
  The identities \<open>n4\<close> and \<open>n5\<close> share the address \<open>198.51.100.7\<close>, so the frontier holds
  two tasks for \<open>http://198.51.100.7:26657\<close>. When both workers run the membership
  test before either runs the insertion, both go on and the address is queried twice;
  when one worker finishes before the other starts, it is queried once.
\<close>

theorem visit_check_then_mark_races:
  "map snd (peers_to_query shared_address_state)
     = [''http://198.51.100.7:26657'', ''http://198.51.100.7:26657'']
   \<and> p_queried (run_schedule [0, 1, 0, 1, 0, 1] (dispatch shared_address_state))
       = [''http://198.51.100.7:26657'', ''http://198.51.100.7:26657'']
   \<and> p_queried (run_schedule [0, 0, 0, 1, 1, 1] (dispatch shared_address_state))
       = [''http://198.51.100.7:26657'']"
  unfolding shared_address_pool
  by (simp add: shared_address_frontier run_schedule_def worker_step_def Let_def)

subsection \<open>The computed runs are runs\<close>

text \<open>
  The step relations cover the functions: what the seed loops, the iterations and the
  crawl loops compute from a point of a run is again a point of a run.
\<close>

lemma cli_reach_step: "cli_reach s \<Longrightarrow> cli_step s s' \<Longrightarrow> cli_reach s'"
  unfolding cli_reach_def by (rule rtranclp.rtrancl_into_rtrancl)

lemma seed_step_reach:
  assumes "cli_reach s" and "seed_step r seed s = Inr s'"
  shows "cli_reach s'"
proof (cases "\<exists>st seed_id m. query_status r seed = Some st \<and> st_id st = Some seed_id
                \<and> seed_id \<noteq> [] \<and> st_moniker st = Some m")
  case False
  with assms(2) have "s' = s"
    by (auto simp: seed_step_def Let_def split: option.splits if_splits)
  with assms(1) show ?thesis by simp
next
  case True
  then obtain st seed_id m where c: "query_status r seed = Some st" "st_id st = Some seed_id"
    "seed_id \<noteq> []" "st_moniker st = Some m" by blast
  have "s' = discover_upto (length (query_net_info r seed)) r seed_id seed
               (store_seed seed seed_id m st (query_abci_info r seed) s)"
    using assms(2) c by (simp add: seed_step_def Let_def discover_whole)
  then have "cli_step s s'" using cli_step.seed_discover [OF c] by simp
  with assms(1) show ?thesis by (rule cli_reach_step)
qed

lemma seed_phase_reach:
  "cli_reach s \<Longrightarrow> seed_phase r seeds s = Inr s' \<Longrightarrow> cli_reach s'"
proof (induction seeds arbitrary: s)
  case Nil
  then show ?case by simp
next
  case (Cons seed seeds)
  from Cons.prems(2) obtain s1 where s1: "seed_step r seed s = Inr s1"
    "seed_phase r seeds s1 = Inr s'"
    by (cases "seed_step r seed s") simp_all
  have "cli_reach s1" using Cons.prems(1) s1(1) by (rule seed_step_reach)
  then show ?case using s1(2) by (rule Cons.IH)
qed

lemma task_reach:
  assumes "cli_reach s" and "map_of (discovered_peers s) pid = Some p"
  shows "cli_reach (discover_from_node r pid (rpc_url p) s)"
  unfolding discover_whole
  using assms(1) cli_step.task [OF assms(2)] by (rule cli_reach_step)

lemma tasks_reach:
  "\<lbrakk>cli_reach s;
    \<forall>(pid, url) \<in> set ts. \<exists>p. map_of (discovered_peers s) pid = Some p \<and> rpc_url p = url\<rbrakk>
   \<Longrightarrow> cli_reach (fold (\<lambda>(pid, url). discover_from_node r pid url) ts s)"
proof (induction ts arbitrary: s)
  case Nil
  then show ?case by simp
next
  case (Cons t ts)
  obtain pid url where t: "t = (pid, url)" by (cases t)
  from Cons.prems(2) t obtain p where p: "map_of (discovered_peers s) pid = Some p"
    "rpc_url p = url" by auto
  let ?s1 = "discover_from_node r pid url s"
  have 1: "cli_reach ?s1" using task_reach [OF Cons.prems(1) p(1), of r] p(2) by simp
  have 2: "\<forall>(pid', url') \<in> set ts.
             \<exists>p. map_of (discovered_peers ?s1) pid' = Some p \<and> rpc_url p = url'"
  proof (clarify)
    fix pid' url' assume "(pid', url') \<in> set ts"
    with Cons.prems(2) obtain p' where "map_of (discovered_peers s) pid' = Some p'"
      "rpc_url p' = url'" by auto
    then show "\<exists>p. map_of (discovered_peers ?s1) pid' = Some p \<and> rpc_url p = url'"
      unfolding discover_whole using discover_upto_lookup by blast
  qed
  from Cons.IH [OF 1 2] show ?case by (simp add: t)
qed

lemma process_peer_distinct:
  "distinct (map fst (discovered_peers s))
   \<Longrightarrow> distinct (map fst (discovered_peers (process_peer src p s)))"
  using process_peer_registry [of src p s] by (auto simp: map_of_eq_None_iff)

lemma process_peers_distinct:
  "distinct (map fst (discovered_peers s))
   \<Longrightarrow> distinct (map fst (discovered_peers (process_peers src ps s)))"
  by (induction ps arbitrary: s) (simp_all add: process_peers_def process_peer_distinct)

lemma discover_upto_distinct:
  "distinct (map fst (discovered_peers s))
   \<Longrightarrow> distinct (map fst (discovered_peers (discover_upto k r src url s)))"
  by (simp add: discover_upto_def process_peers_distinct)

lemma cli_step_distinct:
  "cli_step s s' \<Longrightarrow> distinct (map fst (discovered_peers s))
   \<Longrightarrow> distinct (map fst (discovered_peers s'))"
proof (induction rule: cli_step.induct)
  case (seed_stored r seed st seed_id moniker' s)
  then show ?case by (simp add: store_seed_distinct)
next
  case (seed_discover r seed st seed_id moniker' s k)
  then show ?case by (simp add: discover_upto_distinct store_seed_distinct)
next
  case (task s pid p k r)
  then show ?case by (simp add: discover_upto_distinct)
next
  case (checked s pid p r)
  then show ?case by (simp add: AList.distinct_update)
qed

lemma cli_reach_distinct: "cli_reach s \<Longrightarrow> distinct (map fst (discovered_peers s))"
  unfolding cli_reach_def
  by (induction rule: rtranclp_induct) (simp_all add: cli_step_distinct cli_init_def)

lemma iteration_reach:
  assumes "cli_reach s" and "set (sched (peers_to_query s)) \<subseteq> set (peers_to_query s)"
  shows "cli_reach (iteration sched r s)"
  unfolding iteration_def using assms(1)
proof (rule tasks_reach)
  have d: "distinct (map fst (discovered_peers s))" using assms(1) by (rule cli_reach_distinct)
  show "\<forall>(pid, url) \<in> set (sched (peers_to_query s)).
          \<exists>p. map_of (discovered_peers s) pid = Some p \<and> rpc_url p = url"
  proof (clarify)
    fix pid url assume "(pid, url) \<in> set (sched (peers_to_query s))"
    with assms(2) have "(pid, url) \<in> set (peers_to_query s)" by blast
    then obtain p where "(pid, p) \<in> set (discovered_peers s)" "rpc_url p = url"
      by (auto simp: peers_to_query_def)
    with d show "\<exists>p. map_of (discovered_peers s) pid = Some p \<and> rpc_url p = url" by auto
  qed
qed

lemma crawl_loop_reach:
  assumes run: "crawl_loop sched r s = Some s'"
  shows "(\<forall>xs. mset (sched xs) = mset xs) \<longrightarrow> cli_reach s \<longrightarrow> cli_reach s'"
proof (rule crawl_loop.raw_induct
    [where P = "\<lambda>sched r s s'. (\<forall>xs. mset (sched xs) = mset xs) \<longrightarrow> cli_reach s \<longrightarrow> cli_reach s'",
     OF _ run])
  fix f :: "((string \<times> string) list \<Rightarrow> (string \<times> string) list) \<Rightarrow> rpc \<Rightarrow> cli_state
              \<Rightarrow> cli_state option"
    and sched r s y
  assume IH: "\<And>sched r s y. f sched r s = Some y
                \<Longrightarrow> (\<forall>xs. mset (sched xs) = mset xs) \<longrightarrow> cli_reach s \<longrightarrow> cli_reach y"
    and eq: "(if peers_to_query s = [] then Some s else f sched r (iteration sched r s)) = Some y"
  show "(\<forall>xs. mset (sched xs) = mset xs) \<longrightarrow> cli_reach s \<longrightarrow> cli_reach y"
  proof (intro impI)
    assume sch: "\<forall>xs. mset (sched xs) = mset xs" and reach: "cli_reach s"
    show "cli_reach y"
    proof (cases "peers_to_query s = []")
      case True
      with eq reach show ?thesis by simp
    next
      case False
      with eq have "f sched r (iteration sched r s) = Some y" by simp
      moreover have "cli_reach (iteration sched r s)"
        using reach by (rule iteration_reach) (simp add: sched_set [OF sch])
      ultimately show ?thesis using IH sch by blast
    qed
  qed
qed

lemma crawl_network_reach:
  assumes "\<forall>xs. mset (sched xs) = mset xs"
    and "crawl_network sched r seeds cli_init = Some (Inr s')"
  shows "cli_reach s'"
proof (cases "seed_phase r seeds cli_init")
  case (Inl e)
  with assms(2) show ?thesis by (simp add: crawl_network_def)
next
  case (Inr s1)
  have "cli_reach cli_init" by (simp add: cli_reach_def)
  then have 1: "cli_reach s1" using Inr by (rule seed_phase_reach)
  from assms(2) Inr have "crawl_loop sched r s1 = Some s'"
    by (auto simp: crawl_network_def)
  from crawl_loop_reach [OF this] assms(1) 1 show ?thesis by blast
qed

lemma pn_reach_step:
  assumes "pn_reach t" and "pn_step t t'"
  shows "pn_reach t'"
proof -
  from assms(1) obtain t0 where "pn_step\<^sup>*\<^sup>* (reset t0) t"
    unfolding pn_reach_def by (rule exE)
  then have "pn_step\<^sup>*\<^sup>* (reset t0) t'"
    using assms(2) by (rule rtranclp.rtrancl_into_rtrancl)
  then show ?thesis unfolding pn_reach_def by (rule exI)
qed

lemma pn_seed_phase_reach:
  "pn_reach t \<Longrightarrow> pn_seed_phase r seeds t = Inr t' \<Longrightarrow> pn_reach t'"
proof (induction seeds arbitrary: t)
  case Nil
  then show ?case by simp
next
  case (Cons seed seeds)
  from Cons.prems(2) obtain t1 where t1: "pn_seed_step r seed t = Inr t1"
    "pn_seed_phase r seeds t1 = Inr t'"
    by (cases "pn_seed_step r seed t") simp_all
  have "pn_reach t1" using Cons.prems(1) pn_step.seed_done [OF t1(1)] by (rule pn_reach_step)
  then show ?case using t1(2) by (rule Cons.IH)
qed

lemma workers_reach: "pn_reach t \<Longrightarrow> pn_reach (fold (crawl_worker r) qs t)"
proof (induction qs arbitrary: t)
  case Nil
  then show ?case by simp
next
  case (Cons q qs)
  have "pn_reach (crawl_worker r q t)"
    using Cons.prems pn_step.worker_done by (rule pn_reach_step)
  from Cons.IH [OF this] show ?case by simp
qed

lemma pn_crawl_loop_reach:
  assumes run: "pn_crawl_loop sched r t = Some t'"
  shows "pn_reach t \<longrightarrow> pn_reach t'"
proof (rule pn_crawl_loop.raw_induct
    [where P = "\<lambda>sched r t t'. pn_reach t \<longrightarrow> pn_reach t'", OF _ run])
  fix f :: "(string list \<Rightarrow> string list) \<Rightarrow> rpc \<Rightarrow> pn_state \<Rightarrow> pn_state option"
    and sched r t y
  assume IH: "\<And>sched r t y. f sched r t = Some y \<Longrightarrow> pn_reach t \<longrightarrow> pn_reach y"
    and eq: "(if peers_to_crawl t = [] then Some t else f sched r (pn_iteration sched r t))
               = Some y"
  show "pn_reach t \<longrightarrow> pn_reach y"
  proof
    assume reach: "pn_reach t"
    show "pn_reach y"
    proof (cases "peers_to_crawl t = []")
      case True
      with eq reach show ?thesis by simp
    next
      case False
      with eq have "f sched r (pn_iteration sched r t) = Some y" by simp
      moreover have "pn_reach (pn_iteration sched r t)"
        unfolding pn_iteration_def using reach by (rule workers_reach)
      ultimately show ?thesis using IH by blast
    qed
  qed
qed

lemma start_discovery_reach:
  assumes "start_discovery sched r seeds t0 = Some (Inr t')"
  shows "pn_reach t'"
proof (cases "pn_seed_phase r seeds (reset t0)")
  case (Inl e)
  with assms show ?thesis by (simp add: start_discovery_def)
next
  case (Inr t1)
  have "pn_step\<^sup>*\<^sup>* (reset t0) (reset t0)" by simp
  then have "pn_reach (reset t0)" unfolding pn_reach_def by (rule exI)
  then have 1: "pn_reach t1" using Inr by (rule pn_seed_phase_reach)
  from assms Inr obtain t2 where t2: "pn_crawl_loop sched r t1 = Some t2"
    "t' = t2\<lparr>status := Complete\<rparr>"
    by (auto simp: start_discovery_def split: option.splits)
  have "pn_reach t2" using pn_crawl_loop_reach [OF t2(1)] 1 by blast
  then show ?thesis unfolding t2(2) using pn_step.completed by (rule pn_reach_step)
qed


lemma stats_ok_same_stores:
  "\<lbrakk>stats_ok t; nodes t' = nodes t; pn_edges t' = pn_edges t;
    total_nodes (stats t') = total_nodes (stats t); total_edges (stats t') = total_edges (stats t)\<rbrakk>
   \<Longrightarrow> stats_ok t'"
  by (simp add: stats_ok_def)

lemma pn_process_peer_stats_ok: "stats_ok t \<Longrightarrow> stats_ok (pn_process_peer src p t)"
proof (cases rule: pn_process_peer_cases [of src p t])
  case skip
  then show "stats_ok t \<Longrightarrow> ?thesis" by simp
next
  case (accept i a)
  show "stats_ok t \<Longrightarrow> ?thesis"
    unfolding accept(6) by (simp add: Let_def add_node_stats_ok pn_add_edge_stats_ok)
qed

lemma pn_process_peers_stats_ok: "stats_ok t \<Longrightarrow> stats_ok (pn_process_peers src ps t)"
  by (induction ps arbitrary: t) (simp_all add: pn_process_peers_def pn_process_peer_stats_ok)

lemma pn_discover_upto_stats_ok: "stats_ok t \<Longrightarrow> stats_ok (pn_discover_upto k r src url t)"
proof -
  assume a: "stats_ok t"
  then have "stats_ok (t\<lparr>pn_visited_rpcs := insert url (pn_visited_rpcs t)\<rparr>)"
    by (simp add: stats_ok_def)
  with a show ?thesis by (simp add: pn_discover_upto_def pn_process_peers_stats_ok)
qed

lemma refresh_node_stats_ok: "stats_ok t \<Longrightarrow> stats_ok (refresh_node r q info t)"
proof (cases "query_status r (rpc_url info)")
  case None
  then show "stats_ok t \<Longrightarrow> ?thesis" by (simp add: refresh_node_def)
next
  case (Some st)
  assume "stats_ok t"
  then have "stats_ok (add_node q (ip info) (port info) (moniker info) (tendermint_version info)
               True (query_abci_info r (rpc_url info)) (st_height st) t)"
    by (rule add_node_stats_ok)
  then show ?thesis using Some by (simp add: refresh_node_def Let_def stats_ok_def)
qed

lemma map_entry_length: "length (AList.map_entry k f al) = length al"
  by (induction al) auto

lemma mark_discovered_stats_ok: "stats_ok t \<Longrightarrow> stats_ok (mark_discovered q t)"
  by (simp add: stats_ok_def mark_discovered_def map_entry_length)

lemma crawl_worker_stats_ok: "stats_ok t \<Longrightarrow> stats_ok (crawl_worker r q t)"
proof (cases "map_of (nodes t) q")
  case None
  have "crawl_worker r q t = t" unfolding crawl_worker_def None by simp
  then show "stats_ok t \<Longrightarrow> ?thesis" by simp
next
  case (Some info)
  assume "stats_ok t"
  then have "stats_ok (pn_discover_upto (length (query_net_info r (rpc_url info))) r q
               (rpc_url info) (refresh_node r q info t))"
    by (intro pn_discover_upto_stats_ok refresh_node_stats_ok)
  then show ?thesis using Some
    by (simp add: crawl_worker_def Let_def pn_discover_whole mark_discovered_stats_ok)
qed

lemma pn_seed_step_stats_ok:
  assumes "pn_seed_step r seed t = Inr t'" and "stats_ok t"
  shows "stats_ok t'"
  using assms(1)
proof (cases rule: pn_seed_step_cases)
  case skip
  with assms(2) show ?thesis by simp
next
  case (go url m st seed_id ip')
  show ?thesis unfolding go(6) pn_discover_whole using assms(2)
    by (intro mark_discovered_stats_ok pn_discover_upto_stats_ok add_node_stats_ok)
qed

lemma pn_step_stats_ok: "pn_step t t' \<Longrightarrow> stats_ok t \<Longrightarrow> stats_ok t'"
proof (induction rule: pn_step.induct)
  case (seed_added r url st seed_id ip' s moniker')
  then show ?case by (simp add: add_node_stats_ok)
next
  case (seed_discovering r url st seed_id ip' s k moniker')
  then show ?case by (simp add: pn_discover_upto_stats_ok add_node_stats_ok)
next
  case (seed_done r seed s s')
  then show ?case by (rule pn_seed_step_stats_ok)
next
  case (worker_refreshed s pid p r)
  then show ?case by (simp add: refresh_node_stats_ok)
next
  case (worker_discovering s pid p k r)
  then show ?case by (simp add: pn_discover_upto_stats_ok refresh_node_stats_ok)
next
  case (worker_done s r pid)
  then show ?case by (simp add: crawl_worker_stats_ok)
next
  case (completed s)
  then show ?case by (simp add: stats_ok_def)
qed

lemma pn_reach_stats_ok: "pn_reach t \<Longrightarrow> stats_ok t"
proof -
  assume "pn_reach t"
  then obtain t0 where "pn_step\<^sup>*\<^sup>* (reset t0) t" unfolding pn_reach_def by (rule exE)
  then show ?thesis
    by (induction rule: rtranclp_induct) (simp_all add: reset_stats_ok pn_step_stats_ok)
qed

text \<open>
  What \<^verbatim>\<open>crawl_network\<close> and \<^verbatim>\<open>start_discovery\<close> return is a point of a run, so the
  invariants of the runs hold of it.
\<close>

lemma crawl_network_result:
  assumes "\<forall>xs. mset (sched xs) = mset xs"
    and "crawl_network sched r seeds cli_init = Some (Inr s')"
  shows "edges_closed s' \<and> all_settled s' \<and> distinct (map fst (discovered_peers s'))"
  using crawl_network_reach [OF assms]
  by (simp add: cli_reach_closed cli_reach_settled cli_reach_distinct)

lemma start_discovery_result:
  assumes "start_discovery sched r seeds t0 = Some (Inr t')"
  shows "pn_edges_closed t' \<and> stats_ok t' \<and> status t' = Complete"
proof -
  have "pn_reach t'" using assms by (rule start_discovery_reach)
  moreover have "status t' = Complete"
    using assms by (auto simp: start_discovery_def split: sum.splits option.splits)
  ultimately show ?thesis by (simp add: pn_reach_closed pn_reach_stats_ok)
qed

end
